theory Spec2Isabelle
  imports Main "HOL-Library.Word"
begin

section \<open>Limb arrays and the residue primitives\<close>

text \<open>
  \<^verbatim>\<open>type fp751Element [fp751NumWords]uint64\<close> and
  \<^verbatim>\<open>type fp751X2 [2 * fp751NumWords]uint64\<close>: arrays of 64-bit limbs, least significant
  limb first. An array type is the type of the lists of words of that length.
\<close>

definition fp751NumWords :: nat where
  "fp751NumWords = 12"

text \<open>The integer a list of limbs encodes, and the list of \<open>k\<close> limbs of an integer
  (the integer is truncated to the bits the limbs hold).\<close>

fun limbs_val :: "64 word list \<Rightarrow> int" where
  "limbs_val [] = 0"
| "limbs_val (w # ws) = uint w + 2 ^ 64 * limbs_val ws"

fun limbs_of :: "nat \<Rightarrow> int \<Rightarrow> 64 word list" where
  "limbs_of 0 n = []"
| "limbs_of (Suc k) n = word_of_int n # limbs_of k (n div 2 ^ 64)"

lemma length_limbs_of: "length (limbs_of k n) = k"
  by (induction k arbitrary: n) simp_all

typedef fp751Element = "{xs :: 64 word list. length xs = fp751NumWords}"
  by (rule exI [of _ "replicate fp751NumWords 0"]) simp

typedef fp751X2 = "{xs :: 64 word list. length xs = 2 * fp751NumWords}"
  by (rule exI [of _ "replicate (2 * fp751NumWords) 0"]) simp

setup_lifting type_definition_fp751Element

setup_lifting type_definition_fp751X2

lift_definition fp751_val :: "fp751Element \<Rightarrow> int" is limbs_val .

lift_definition fp751_of :: "int \<Rightarrow> fp751Element" is "limbs_of fp751NumWords"
  by (rule length_limbs_of)

text \<open>Reading limb \<open>x[i]\<close> and the assignment \<open>x[i] = w\<close>, for an index in range.\<close>

definition fp751_limb :: "fp751Element \<Rightarrow> nat \<Rightarrow> 64 word" where
  "fp751_limb x i = Rep_fp751Element x ! i"

definition fp751_set_limb :: "fp751Element \<Rightarrow> nat \<Rightarrow> 64 word \<Rightarrow> fp751Element" where
  "fp751_set_limb x i w = Abs_fp751Element ((Rep_fp751Element x)[i := w])"

text \<open>The zero value of the type, \<^verbatim>\<open>fp751Element{}\<close>.\<close>

lift_definition fp751_zero :: fp751Element is "replicate fp751NumWords 0"
  by simp

lift_definition fp751X2_val :: "fp751X2 \<Rightarrow> int" is limbs_val .

lift_definition fp751X2_of :: "int \<Rightarrow> fp751X2" is "limbs_of (2 * fp751NumWords)"
  by (rule length_limbs_of)

lift_definition fp751X2_zero :: fp751X2 is "replicate (2 * fp751NumWords) 0"
  by simp

text \<open>
  Modelled from the spec: the modulus. The source names it only as \<open>p\<close> (``(2^768) mod p'');
  the spec calls it the 751-bit prime with \<open>p \<equiv> 3 mod 4\<close>. It is the prime of the
  parameter set the package is named after, \<open>2^372 * 3^239 - 1\<close>; the source's constants
  \<open>montgomeryR\<close> and \<open>montgomeryRsq\<close> are checked against it below.
\<close>

definition p751 :: int where
  "p751 = 2 ^ 372 * 3 ^ 239 - 1"

text \<open>
  Modelled from the spec: the inverse of the Montgomery radix \<open>R = 2^768\<close> modulo \<open>p\<close>
  (``MontgomeryReduce(z, x): z = x\<cdot>R\<inverse> mod p''). Since \<open>p + 1 = 2^372 * 3^239\<close>,
  the inverse of \<open>2^768\<close> is \<open>2^348 * 3^717\<close>: their product is \<open>(p + 1)^3\<close>.
\<close>

definition montgomeryRinv :: int where
  "montgomeryRinv = (2 ^ 348 * 3 ^ 717) mod p751"

text \<open>\<^verbatim>\<open>var montgomeryR = fp751Element{149933, 0, 0, 0, 0, 9444048418595930112, ...}\<close>\<close>

lift_definition montgomeryR :: fp751Element
  is "[149933, 0, 0, 0, 0, 9444048418595930112, 6136068611055053926,
     7599709743867700432, 14455912356952952366, 5522737203492907350,
     1222606818372667369, 49869481633250]"
  by (simp add: fp751NumWords_def)

lift_definition montgomeryRsq :: fp751Element
  is "[2535603850726686808, 15780896088201250090, 6788776303855402382,
     17585428585582356230, 5274503137951975249, 2266259624764636289,
     11695651972693921304, 13072885652150159301, 4908312795585420432,
     6229583484603254826, 488927695601805643, 72213483953973]"
  by (simp add: fp751NumWords_def)

text \<open>
  Modelled from the spec: \<^verbatim>\<open>fp751AddReduced(z, x, y)\<close>, declared in the source without a
  body (``Compute z = x + y (mod p)''); the spec: ``z = (x+y) mod p, canonical range''.
\<close>

definition fp751AddReduced :: "fp751Element \<Rightarrow> fp751Element \<Rightarrow> fp751Element" where
  "fp751AddReduced x y = fp751_of ((fp751_val x + fp751_val y) mod p751)"

text \<open>
  Modelled from the spec: \<^verbatim>\<open>fp751SubReduced(z, x, y)\<close>, declared in the source without a
  body (``Compute z = x - y (mod p)''); the spec: ``z = (x\<minus>y) mod p, canonical range''.
\<close>

definition fp751SubReduced :: "fp751Element \<Rightarrow> fp751Element \<Rightarrow> fp751Element" where
  "fp751SubReduced x y = fp751_of ((fp751_val x - fp751_val y) mod p751)"

text \<open>
  Modelled from the spec: \<^verbatim>\<open>fp751Mul(z, x, y)\<close>, declared in the source without a body
  (``Compute z = x * y''); the spec: ``z = x\<cdot>y, double-width, exact (no modular reduction)''.
\<close>

definition fp751Mul :: "fp751Element \<Rightarrow> fp751Element \<Rightarrow> fp751X2" where
  "fp751Mul x y = fp751X2_of (fp751_val x * fp751_val y)"

text \<open>
  Modelled from the spec: \<^verbatim>\<open>fp751X2AddLazy(z, x, y)\<close>, declared in the source without a
  body (``Compute z = x + y, without reducing mod p''). The sum is stored in 24 limbs, so
  a carry out of the top limb is lost.
\<close>

definition fp751X2AddLazy :: "fp751X2 \<Rightarrow> fp751X2 \<Rightarrow> fp751X2" where
  "fp751X2AddLazy x y = fp751X2_of (fp751X2_val x + fp751X2_val y)"

text \<open>
  Modelled from the spec: \<^verbatim>\<open>fp751X2SubLazy(z, x, y)\<close>, declared in the source without a
  body (``Compute z = x - y, without reducing mod p''). A limb array holds no negative
  value: when \<open>x < y\<close> the model returns \<open>x - y + p * 2^768\<close>, the representative of the
  difference that is not negative and that the Montgomery reduction maps to
  \<open>(x - y) * R\<inverse> mod p\<close>, as the spec's contracts of the two primitives together require.
\<close>

definition fp751X2SubLazy :: "fp751X2 \<Rightarrow> fp751X2 \<Rightarrow> fp751X2" where
  "fp751X2SubLazy x y =
     fp751X2_of (if fp751X2_val y \<le> fp751X2_val x then fp751X2_val x - fp751X2_val y
                 else fp751X2_val x - fp751X2_val y + p751 * 2 ^ 768)"

text \<open>
  Modelled from the spec: \<^verbatim>\<open>fp751MontgomeryReduce(z, x)\<close>, declared in the source without
  a body (``set z = x R^{-1} (mod p)''); the spec: ``z = x\<cdot>R\<inverse> mod p, single-width''.
\<close>

definition fp751MontgomeryReduce :: "fp751X2 \<Rightarrow> fp751Element" where
  "fp751MontgomeryReduce x = fp751_of ((fp751X2_val x * montgomeryRinv) mod p751)"

text \<open>
  Modelled from the spec: \<^verbatim>\<open>fp751StrongReduce(x)\<close>, declared in the source without a body
  (``Reduce a field element in [0, 2*p) to one in [0,p)''): one conditional subtraction
  of \<open>p\<close>.
\<close>

definition fp751StrongReduce :: "fp751Element \<Rightarrow> fp751Element" where
  "fp751StrongReduce x = (if p751 \<le> fp751_val x then fp751_of (fp751_val x - p751) else x)"

section \<open>The prime field\<close>

text \<open>\<^verbatim>\<open>type PrimeFieldElement struct { a fp751Element }\<close>. The functions of this section
  give the value a method leaves in \<open>dest\<close> from the values of its operands.\<close>

record PrimeFieldElement =
  prime_a :: fp751Element

definition PrimeFieldElement_Mul :: "PrimeFieldElement \<Rightarrow> PrimeFieldElement \<Rightarrow> PrimeFieldElement" where
  "PrimeFieldElement_Mul lhs rhs =
     (let a = prime_a lhs;
          b = prime_a rhs;
          ab = fp751Mul a b
      in \<lparr>prime_a = fp751MontgomeryReduce ab\<rparr>)"

definition PrimeFieldElement_Square :: "PrimeFieldElement \<Rightarrow> PrimeFieldElement" where
  "PrimeFieldElement_Square x =
     (let a = prime_a x;
          b = prime_a x;
          ab = fp751Mul a b
      in \<lparr>prime_a = fp751MontgomeryReduce ab\<rparr>)"

text \<open>\<^verbatim>\<open>for i := uint8(1); i < k; i++ { dest.Square(dest) }\<close>: the counter is a byte,
  and below \<open>k\<close> it cannot wrap.\<close>

function Pow2k_loop :: "8 word \<Rightarrow> 8 word \<Rightarrow> PrimeFieldElement \<Rightarrow> PrimeFieldElement" where
  "Pow2k_loop i k dest =
     (if i < k then Pow2k_loop (i + 1) k (PrimeFieldElement_Square dest) else dest)"
  by pat_completeness auto
termination
proof (relation "measure (\<lambda>(i, k, dest). unat k - unat i)")
  show "wf (measure (\<lambda>(i, k, dest). unat k - unat i))"
    by simp
next
  fix i k :: "8 word" and dest :: PrimeFieldElement
  assume lt: "i < k"
  then have "unat i < unat k"
    by (simp add: word_less_nat_alt)
  moreover have "unat k < 256"
    using unsigned_less [of k, where ?'a = nat] by simp
  ultimately have "unat (i + 1) = unat i + 1"
    by (simp add: unat_word_ariths)
  with \<open>unat i < unat k\<close>
  show "((i + 1, k, PrimeFieldElement_Square dest), (i, k, dest))
          \<in> measure (\<lambda>(i, k, dest). unat k - unat i)"
    by simp
qed

declare Pow2k_loop.simps [simp del]

definition PrimeFieldElement_Pow2k :: "PrimeFieldElement \<Rightarrow> 8 word \<Rightarrow> PrimeFieldElement" where
  "PrimeFieldElement_Pow2k x k = Pow2k_loop 1 k (PrimeFieldElement_Square x)"

definition PrimeFieldElement_Add :: "PrimeFieldElement \<Rightarrow> PrimeFieldElement \<Rightarrow> PrimeFieldElement" where
  "PrimeFieldElement_Add lhs rhs = \<lparr>prime_a = fp751AddReduced (prime_a lhs) (prime_a rhs)\<rparr>"

definition PrimeFieldElement_Sub :: "PrimeFieldElement \<Rightarrow> PrimeFieldElement \<Rightarrow> PrimeFieldElement" where
  "PrimeFieldElement_Sub lhs rhs = \<lparr>prime_a = fp751SubReduced (prime_a lhs) (prime_a rhs)\<rparr>"

text \<open>\<^verbatim>\<open>dest.a = fp751Element{}; dest.a[0] = x; fp751Mul(&xRR, &dest.a, &montgomeryRsq);
  fp751MontgomeryReduce(&dest.a, &xRR)\<close>\<close>

definition PrimeFieldElement_SetUint64 :: "64 word \<Rightarrow> PrimeFieldElement" where
  "PrimeFieldElement_SetUint64 x =
     (let dest_a = fp751_zero;
          dest_a = fp751_set_limb dest_a 0 x;
          xRR = fp751Mul dest_a montgomeryRsq
      in \<lparr>prime_a = fp751MontgomeryReduce xRR\<rparr>)"

text \<open>The sliding-window strategy of \<^verbatim>\<open>P34\<close>: \<^verbatim>\<open>powStrategy := [137]uint8{5, 7, 6, ...}\<close>,
  \<^verbatim>\<open>mulStrategy := [137]uint8{31, 23, 21, ...}\<close>, \<^verbatim>\<open>initialMul := uint8(27)\<close>.\<close>

definition powStrategy :: "8 word list" where
  "powStrategy = [
    5, 7, 6, 2, 10, 4, 6, 9, 8, 5, 9, 4, 7, 5, 5, 4, 8, 3, 9, 5, 5, 4, 10, 4, 6, 6, 6, 5,
     8, 9, 3, 4, 9, 4, 5, 6, 6, 2, 9, 4, 5, 5, 5, 7, 7, 9, 4, 6, 4, 8, 5, 8, 6, 6, 2, 9, 7,
     4, 8, 8, 8, 4, 6, 5, 5, 5, 5, 5, 5, 5, 5, 5, 5, 5, 5, 5, 5, 5, 5, 5, 5, 5, 5, 5, 5, 5,
     5, 5, 5, 5, 5, 5, 5, 5, 5, 5, 5, 5, 5, 5, 5, 5, 5, 5, 5, 5, 5, 5, 5, 5, 5, 5, 5, 5, 5,
     5, 5, 5, 5, 5, 5, 5, 5, 5, 5, 5, 5, 5, 5, 5, 5, 5, 5, 5, 5, 5, 2]"

definition mulStrategy :: "8 word list" where
  "mulStrategy = [
    31, 23, 21, 1, 31, 7, 7, 7, 9, 9, 19, 15, 23, 23, 11, 7, 25, 5, 21, 17, 11, 5, 17, 7,
     11, 9, 23, 9, 1, 19, 5, 3, 25, 15, 11, 29, 31, 1, 29, 11, 13, 9, 11, 27, 13, 19, 15,
     31, 3, 29, 23, 31, 25, 11, 1, 21, 19, 15, 15, 21, 29, 13, 23, 31, 31, 31, 31, 31, 31,
     31, 31, 31, 31, 31, 31, 31, 31, 31, 31, 31, 31, 31, 31, 31, 31, 31, 31, 31, 31, 31,
     31, 31, 31, 31, 31, 31, 31, 31, 31, 31, 31, 31, 31, 31, 31, 31, 31, 31, 31, 31, 31,
     31, 31, 31, 31, 31, 31, 31, 31, 31, 31, 31, 31, 31, 31, 31, 31, 31, 31, 31, 31, 31,
     31, 31, 31, 31, 3]"

definition initialMul :: "8 word" where
  "initialMul = 27"

definition PrimeFieldElement_zero :: PrimeFieldElement where
  "PrimeFieldElement_zero = \<lparr>prime_a = fp751_zero\<rparr>"

text \<open>\<^verbatim>\<open>lookup := [16]PrimeFieldElement{}; xx.Square(x); lookup[0] = *x;
  for i := 1; i < 16; i++ { lookup[i].Mul(&lookup[i-1], xx) }\<close>\<close>

definition P34_lookup :: "PrimeFieldElement \<Rightarrow> PrimeFieldElement list" where
  "P34_lookup x =
     (let lookup = replicate 16 PrimeFieldElement_zero;
          xx = PrimeFieldElement_Square x;
          lookup = lookup[0 := x]
      in fold (\<lambda>i lookup. lookup[i := PrimeFieldElement_Mul (lookup ! (i - 1)) xx])
           [1..<16] lookup)"

text \<open>\<^verbatim>\<open>*dest = lookup[initialMul/2];
  for i := uint8(0); i < 137; i++ {
    dest.Pow2k(dest, powStrategy[i]); dest.Mul(dest, &lookup[mulStrategy[i]/2]) }\<close>\<close>

definition PrimeFieldElement_P34 :: "PrimeFieldElement \<Rightarrow> PrimeFieldElement" where
  "PrimeFieldElement_P34 x =
     (let lookup = P34_lookup x;
          dest = lookup ! unat (initialMul div 2)
      in fold (\<lambda>i dest.
                 let dest = PrimeFieldElement_Pow2k dest (powStrategy ! i)
                 in PrimeFieldElement_Mul dest (lookup ! unat (mulStrategy ! i div 2)))
           [0..<137] dest)"

text \<open>\<^verbatim>\<open>tmp_x := *x; dest.P34(x); dest.Mul(dest, &tmp_x)\<close>\<close>

definition PrimeFieldElement_Sqrt :: "PrimeFieldElement \<Rightarrow> PrimeFieldElement" where
  "PrimeFieldElement_Sqrt x =
     (let tmp_x = x;
          dest = PrimeFieldElement_P34 x
      in PrimeFieldElement_Mul dest tmp_x)"

text \<open>\<^verbatim>\<open>tmp_x := *x; dest.Square(x); dest.P34(dest); dest.Square(dest);
  dest.Mul(dest, &tmp_x)\<close>\<close>

definition PrimeFieldElement_Inv :: "PrimeFieldElement \<Rightarrow> PrimeFieldElement" where
  "PrimeFieldElement_Inv x =
     (let tmp_x = x;
          dest = PrimeFieldElement_Square x;
          dest = PrimeFieldElement_P34 dest;
          dest = PrimeFieldElement_Square dest
      in PrimeFieldElement_Mul dest tmp_x)"

text \<open>\<^verbatim>\<open>func (x fp751Element) vartimeEq(y fp751Element) bool\<close>: both arrays are passed
  by value, so the reductions work on copies.\<close>

definition vartimeEq :: "fp751Element \<Rightarrow> fp751Element \<Rightarrow> bool" where
  "vartimeEq x y =
     (let x = fp751StrongReduce x;
          y = fp751StrongReduce y
      in fold (\<lambda>i eq. (fp751_limb x i = fp751_limb y i) \<and> eq) [0..<fp751NumWords] True)"

definition PrimeFieldElement_VartimeEq :: "PrimeFieldElement \<Rightarrow> PrimeFieldElement \<Rightarrow> bool" where
  "PrimeFieldElement_VartimeEq lhs rhs = vartimeEq (prime_a lhs) (prime_a rhs)"

section \<open>The extension field\<close>

text \<open>\<^verbatim>\<open>type ExtensionFieldElement struct { a fp751Element; b fp751Element }\<close>\<close>

record ExtensionFieldElement =
  ext_a :: fp751Element
  ext_b :: fp751Element

definition ExtensionFieldElement_Mul ::
    "ExtensionFieldElement \<Rightarrow> ExtensionFieldElement \<Rightarrow> ExtensionFieldElement" where
  "ExtensionFieldElement_Mul lhs rhs =
     (let a = ext_a lhs;
          b = ext_b lhs;
          c = ext_a rhs;
          d = ext_b rhs;
          ac = fp751Mul a c;
          bd = fp751Mul b d;
          b_minus_a = fp751SubReduced b a;
          c_minus_d = fp751SubReduced c d;
          ad_plus_bc = fp751Mul b_minus_a c_minus_d;
          ad_plus_bc = fp751X2AddLazy ad_plus_bc ac;
          ad_plus_bc = fp751X2AddLazy ad_plus_bc bd;
          dest_b = fp751MontgomeryReduce ad_plus_bc;
          ac_minus_bd = fp751X2SubLazy ac bd;
          dest_a = fp751MontgomeryReduce ac_minus_bd
      in \<lparr>ext_a = dest_a, ext_b = dest_b\<rparr>)"

definition ExtensionFieldElement_Inv :: "ExtensionFieldElement \<Rightarrow> ExtensionFieldElement" where
  "ExtensionFieldElement_Inv x =
     (let a = ext_a x;
          b = ext_b x;
          asq = fp751Mul a a;
          bsq = fp751Mul b b;
          asq = fp751X2AddLazy asq bsq;
          asq_plus_bsq = \<lparr>prime_a = fp751MontgomeryReduce asq\<rparr>;
          asq_plus_bsq_inv = PrimeFieldElement_Inv asq_plus_bsq;
          c = prime_a asq_plus_bsq_inv;
          ac = fp751Mul a c;
          dest_a = fp751MontgomeryReduce ac;
          minus_b = fp751_zero;
          minus_b = fp751SubReduced minus_b b;
          minus_bc = fp751Mul minus_b c;
          dest_b = fp751MontgomeryReduce minus_bc
      in \<lparr>ext_a = dest_a, ext_b = dest_b\<rparr>)"

definition ExtensionFieldElement_Square :: "ExtensionFieldElement \<Rightarrow> ExtensionFieldElement" where
  "ExtensionFieldElement_Square x =
     (let a = ext_a x;
          b = ext_b x;
          a2 = fp751AddReduced a a;
          a_plus_b = fp751AddReduced a b;
          a_minus_b = fp751SubReduced a b;
          asq_minus_bsq = fp751Mul a_plus_b a_minus_b;
          ab2 = fp751Mul a2 b;
          dest_a = fp751MontgomeryReduce asq_minus_bsq;
          dest_b = fp751MontgomeryReduce ab2
      in \<lparr>ext_a = dest_a, ext_b = dest_b\<rparr>)"

definition ExtensionFieldElement_Add ::
    "ExtensionFieldElement \<Rightarrow> ExtensionFieldElement \<Rightarrow> ExtensionFieldElement" where
  "ExtensionFieldElement_Add lhs rhs =
     \<lparr>ext_a = fp751AddReduced (ext_a lhs) (ext_a rhs),
      ext_b = fp751AddReduced (ext_b lhs) (ext_b rhs)\<rparr>"

definition ExtensionFieldElement_Sub ::
    "ExtensionFieldElement \<Rightarrow> ExtensionFieldElement \<Rightarrow> ExtensionFieldElement" where
  "ExtensionFieldElement_Sub lhs rhs =
     \<lparr>ext_a = fp751SubReduced (ext_a lhs) (ext_a rhs),
      ext_b = fp751SubReduced (ext_b lhs) (ext_b rhs)\<rparr>"

definition ExtensionFieldElement_VartimeEq ::
    "ExtensionFieldElement \<Rightarrow> ExtensionFieldElement \<Rightarrow> bool" where
  "ExtensionFieldElement_VartimeEq lhs rhs =
     (vartimeEq (ext_a lhs) (ext_a rhs) \<and> vartimeEq (ext_b lhs) (ext_b rhs))"

section \<open>Limb arrays encode integers\<close>

lemma limbs_val_nonneg: "0 \<le> limbs_val xs"
  by (induction xs) simp_all

lemma limbs_val_less: "limbs_val xs < 2 ^ (64 * length xs)"
proof (induction xs)
  case Nil
  show ?case by simp
next
  case (Cons w ws)
  have "uint w < 2 ^ 64"
    using uint_bounded [of w] by simp
  moreover have "limbs_val ws + 1 \<le> 2 ^ (64 * length ws)"
    using Cons.IH by simp
  then have "2 ^ 64 * (limbs_val ws + 1) \<le> (2::int) ^ 64 * 2 ^ (64 * length ws)"
    by (rule mult_left_mono) simp
  ultimately show ?case
    by (simp add: power_add algebra_simps)
qed

lemma limbs_val_of: "limbs_val (limbs_of k n) = n mod 2 ^ (64 * k)"
proof (induction k arbitrary: n)
  case 0
  show ?case by simp
next
  case (Suc k)
  define B :: int where "B = 2 ^ 64"
  define M :: int where "M = 2 ^ (64 * k)"
  have M: "0 \<le> M"
    by (simp add: M_def)
  have "uint (word_of_int n :: 64 word) = n mod B"
    by (simp add: uint_word_of_int B_def)
  moreover have "n mod (B * M) = B * (n div B mod M) + n mod B"
    using M by (rule zmod_zmult2_eq)
  moreover have "(2::int) ^ (64 * Suc k) = B * M"
    by (simp add: B_def M_def power_add)
  moreover have "limbs_val (limbs_of k (n div B)) = n div B mod M"
    unfolding M_def by (rule Suc.IH)
  ultimately show ?case
    unfolding limbs_of.simps limbs_val.simps B_def [symmetric] by simp
qed

lemma limbs_of_val: "limbs_of (length xs) (limbs_val xs) = xs"
proof (induction xs)
  case Nil
  show ?case by simp
next
  case (Cons w ws)
  define B :: int where "B = 2 ^ 64"
  have b: "0 \<le> uint w" "uint w < B"
    using uint_bounded [of w] by (simp_all add: B_def)
  have B: "0 < B"
    by (simp add: B_def)
  have d: "(uint w + B * limbs_val ws) div B = limbs_val ws"
    using b B by simp
  have "(uint w + B * limbs_val ws) mod B = uint w"
    using b B by simp
  then have tb: "take_bit 64 (uint w + B * limbs_val ws) = uint w"
    unfolding take_bit_eq_mod B_def .
  have "take_bit LENGTH(64) (uint w + B * limbs_val ws) = take_bit LENGTH(64) (uint w)"
    using tb b by (simp add: take_bit_eq_mod B_def)
  then have "(word_of_int (uint w + B * limbs_val ws) :: 64 word) = word_of_int (uint w)"
    by (rule word_of_int_eq_iff [THEN iffD2])
  then have w: "(word_of_int (uint w + B * limbs_val ws) :: 64 word) = w"
    by simp
  show ?case
    using Cons.IH d w unfolding B_def by simp
qed

lemma limbs_val_replicate_0: "limbs_val (replicate k 0) = 0"
  by (induction k) simp_all

lemma fp751_val_nonneg: "0 \<le> fp751_val x"
  by transfer (rule limbs_val_nonneg)

lemma fp751_val_less: "fp751_val x < 2 ^ 768"
proof transfer
  fix x :: "64 word list"
  assume "length x = fp751NumWords"
  then show "limbs_val x < 2 ^ 768"
    using limbs_val_less [of x] by (simp add: fp751NumWords_def)
qed

lemma fp751_val_of: "fp751_val (fp751_of n) = n mod 2 ^ 768"
  by transfer (simp add: limbs_val_of fp751NumWords_def)

lemma fp751_of_val: "fp751_of (fp751_val x) = x"
proof transfer
  fix x :: "64 word list"
  assume "length x = fp751NumWords"
  then show "limbs_of fp751NumWords (limbs_val x) = x"
    using limbs_of_val [of x] by simp
qed

lemma fp751X2_val_nonneg: "0 \<le> fp751X2_val x"
  by transfer (rule limbs_val_nonneg)

lemma fp751X2_val_less: "fp751X2_val x < 2 ^ 1536"
proof transfer
  fix x :: "64 word list"
  assume "length x = 2 * fp751NumWords"
  then show "limbs_val x < 2 ^ 1536"
    using limbs_val_less [of x] by (simp add: fp751NumWords_def)
qed

lemma fp751X2_val_of: "fp751X2_val (fp751X2_of n) = n mod 2 ^ 1536"
  by transfer (simp add: limbs_val_of fp751NumWords_def)

lemma fp751_val_inject: "fp751_val x = fp751_val y \<Longrightarrow> x = y"
  by (metis fp751_of_val)

lemma fp751_val_zero: "fp751_val fp751_zero = 0"
  by transfer (rule limbs_val_replicate_0)

section \<open>Repeated squaring\<close>

lemma Pow2k_loop_stop: "\<not> i < k \<Longrightarrow> Pow2k_loop i k dest = dest"
  by (subst Pow2k_loop.simps) simp

text \<open>
  C9: \<open>Pow2k(dest, x, 0)\<close> behaves as \<open>Pow2k(dest, x, 1)\<close>: the first squaring is
  outside the loop, and the loop, which starts at 1, does not run for \<open>k = 0\<close> or
  \<open>k = 1\<close>. Both leave \<open>x\<^sup>2\<close> in \<open>dest\<close>.
\<close>

theorem Pow2k_zero_is_one_squaring:
  "PrimeFieldElement_Pow2k x 0 = PrimeFieldElement_Pow2k x 1
   \<and> PrimeFieldElement_Pow2k x 0 = PrimeFieldElement_Square x"
  by (simp add: PrimeFieldElement_Pow2k_def Pow2k_loop_stop)

section \<open>Montgomery arithmetic on the encoded integers\<close>

lemma radix_inverse_exponents:
  fixes a b :: int
  shows "a ^ 768 * (a ^ 348 * b ^ 717) = (a ^ 372 * b ^ 239) ^ 3"
proof -
  have "(a ^ 372 * b ^ 239) ^ 3 = a ^ (372 * 3) * b ^ (239 * 3)"
    by (simp only: power_mult_distrib power_mult)
  also have "\<dots> = a ^ (768 + 348) * b ^ 717"
    by simp
  also have "\<dots> = a ^ 768 * (a ^ 348 * b ^ 717)"
    by (simp only: power_add mult.assoc)
  finally show ?thesis by simp
qed

lemma p751_succ: "p751 + 1 = 2 ^ 372 * 3 ^ 239"
  by (simp only: p751_def diff_add_cancel)

lemma p751_gt_1: "1 < p751"
proof -
  have "(2::int) ^ 1 \<le> 2 ^ 372"
    by (rule power_increasing) simp_all
  moreover have "(1::int) \<le> 3 ^ 239"
    by (rule one_le_power) simp
  ultimately have "(2::int) * 1 \<le> 2 ^ 372 * 3 ^ 239"
    by (intro mult_mono) simp_all
  moreover have "(4::int) ^ 1 \<le> 2 ^ 372"
  proof -
    have "(2::int) ^ 2 \<le> 2 ^ 372"
      by (rule power_increasing) simp_all
    then show ?thesis by simp
  qed
  ultimately show ?thesis
    using p751_succ \<open>(1::int) \<le> 3 ^ 239\<close>
      mult_mono [of "4::int" "2 ^ 372" 1 "3 ^ 239"] by simp
qed

lemma three_pow_239_less: "(3::int) ^ 239 < 2 ^ 379"
  by simp

lemma p751_less: "p751 < 2 ^ 751"
proof -
  have "(2::int) ^ 372 * 3 ^ 239 < 2 ^ 372 * 2 ^ 379"
    using three_pow_239_less by (intro mult_strict_left_mono) simp_all
  also have "\<dots> = 2 ^ 751"
    by (simp only: power_add [symmetric]) simp
  finally show ?thesis
    using p751_succ by linarith
qed

lemma p751_less_768: "p751 < 2 ^ 768"
proof -
  have "(2::int) ^ 751 \<le> 2 ^ 768"
    by (rule power_increasing) simp_all
  then show ?thesis
    using p751_less by linarith
qed

lemma montgomeryRinv_inverse: "(2 ^ 768 * montgomeryRinv) mod p751 = 1"
proof -
  have "(2 ^ 768 * montgomeryRinv) mod p751 = (2 ^ 768 * (2 ^ 348 * 3 ^ 717)) mod p751"
    unfolding montgomeryRinv_def by (rule mod_mult_right_eq)
  also have "\<dots> = ((p751 + 1) ^ 3) mod p751"
    by (simp only: radix_inverse_exponents p751_succ)
  also have "\<dots> = (((p751 + 1) mod p751) ^ 3) mod p751"
    by (rule power_mod [symmetric])
  also have "(p751 + 1) mod p751 = 1"
    using p751_gt_1 by simp
  finally show ?thesis
    using p751_gt_1 by simp
qed

definition mont_mul :: "int \<Rightarrow> int \<Rightarrow> int" where
  "mont_mul a b = (a * b * montgomeryRinv) mod p751"

lemma mont_mul_range: "0 \<le> mont_mul a b \<and> mont_mul a b < p751"
  using p751_gt_1 by (simp add: mont_mul_def)

lemma val_of_residue: "fp751_val (fp751_of (n mod p751)) = n mod p751"
proof -
  have "0 \<le> n mod p751" "n mod p751 < p751"
    using p751_gt_1 by simp_all
  then have "n mod p751 mod 2 ^ 768 = n mod p751"
    using p751_less_768 by (intro mod_pos_pos_trivial) linarith+
  then show ?thesis
    by (simp only: fp751_val_of)
qed

lemma val_fp751Mul: "fp751X2_val (fp751Mul x y) = fp751_val x * fp751_val y"
proof -
  have x: "0 \<le> fp751_val x" "fp751_val x < 2 ^ 768"
    by (rule fp751_val_nonneg, rule fp751_val_less)
  have y: "0 \<le> fp751_val y" "fp751_val y < 2 ^ 768"
    by (rule fp751_val_nonneg, rule fp751_val_less)
  have "fp751_val x * fp751_val y < 2 ^ 768 * 2 ^ 768"
    using x y by (intro mult_strict_mono) simp_all
  also have "(2::int) ^ 768 * 2 ^ 768 = 2 ^ 1536"
    by (simp only: power_add [symmetric]) simp
  finally have "fp751_val x * fp751_val y < 2 ^ 1536" .
  moreover have "0 \<le> fp751_val x * fp751_val y"
    using x y by simp
  ultimately have "(fp751_val x * fp751_val y) mod 2 ^ 1536 = fp751_val x * fp751_val y"
    by (rule mod_pos_pos_trivial [rotated])
  then show ?thesis
    by (simp only: fp751Mul_def fp751X2_val_of)
qed

lemma val_MontgomeryReduce:
  "fp751_val (fp751MontgomeryReduce x) = (fp751X2_val x * montgomeryRinv) mod p751"
  by (simp only: fp751MontgomeryReduce_def val_of_residue)

lemma val_Mul:
  "fp751_val (prime_a (PrimeFieldElement_Mul x y))
     = mont_mul (fp751_val (prime_a x)) (fp751_val (prime_a y))"
  by (simp add: PrimeFieldElement_Mul_def Let_def val_MontgomeryReduce val_fp751Mul mont_mul_def)

lemma val_Square:
  "fp751_val (prime_a (PrimeFieldElement_Square x))
     = mont_mul (fp751_val (prime_a x)) (fp751_val (prime_a x))"
  by (simp add: PrimeFieldElement_Square_def Let_def val_MontgomeryReduce val_fp751Mul mont_mul_def)

lemma PrimeFieldElement_eqI:
  "fp751_val (prime_a x) = fp751_val (prime_a y) \<Longrightarrow> x = (y :: PrimeFieldElement)"
  by (cases x, cases y) (simp add: fp751_val_inject)

lemma mont_mul_zero_right: "mont_mul a 0 = 0"
  by (simp add: mont_mul_def)

lemma Mul_zero_right: "PrimeFieldElement_Mul d PrimeFieldElement_zero = PrimeFieldElement_zero"
  by (rule PrimeFieldElement_eqI)
     (simp add: val_Mul PrimeFieldElement_zero_def fp751_val_zero mont_mul_zero_right)

text \<open>
  C6: \<open>Inv\<close> applied to the zero element returns the zero element: the last step
  multiplies by the saved copy of \<open>x\<close>, which is zero. No step of \<open>Inv\<close> can fail.
\<close>

theorem Inv_zero: "PrimeFieldElement_Inv PrimeFieldElement_zero = PrimeFieldElement_zero"
  by (simp add: PrimeFieldElement_Inv_def Let_def Mul_zero_right)

lemma mont_mul_commute: "mont_mul a b = mont_mul b a"
  by (simp add: mont_mul_def mult.commute)

lemma mont_mul_mod_left: "mont_mul (a mod p751) b = mont_mul a b"
  unfolding mont_mul_def by (simp add: mod_mult_left_eq mult.assoc)

lemma mont_mul_mod_right: "mont_mul a (b mod p751) = mont_mul a b"
  by (simp add: mont_mul_commute [of a] mont_mul_mod_left)

lemma mont_mul_mod: "mont_mul a b mod p751 = mont_mul a b"
  by (simp add: mont_mul_def)

text \<open>The \<open>n\<close>-fold Montgomery product of \<open>x\<close>: \<open>x^n * R * R\<inverse>^n\<close>.\<close>

definition mont_pow :: "int \<Rightarrow> nat \<Rightarrow> int" where
  "mont_pow x n = (x ^ n * 2 ^ 768 * montgomeryRinv ^ n) mod p751"

lemma radix_cancel:
  fixes p R I c :: int
  assumes "(R * I) mod p = 1"
  shows "(c * (R * I)) mod p = c mod p"
proof -
  have "(c * (R * I)) mod p = (c * ((R * I) mod p)) mod p"
    by (simp only: mod_mult_right_eq)
  then show ?thesis
    using assms by simp
qed

lemma mod_mult3_eq:
  fixes p A B I :: int
  shows "((A mod p) * (B mod p) * I) mod p = (A * B * I) mod p"
  by (rule mod_mult_cong) (simp_all add: mod_mult_eq)

lemma mont_pow_add_generic:
  fixes p R I x :: int
  assumes "(R * I) mod p = 1"
  shows "((x ^ m * R * I ^ m mod p) * (x ^ n * R * I ^ n mod p) * I) mod p
         = (x ^ (m + n) * R * I ^ (m + n)) mod p"
proof -
  have "((x ^ m * R * I ^ m mod p) * (x ^ n * R * I ^ n mod p) * I) mod p
        = ((x ^ m * R * I ^ m) * (x ^ n * R * I ^ n) * I) mod p"
    by (rule mod_mult3_eq)
  also have "(x ^ m * R * I ^ m) * (x ^ n * R * I ^ n) * I
             = (x ^ (m + n) * R * I ^ (m + n)) * (R * I)"
    by (simp add: power_add algebra_simps)
  finally show ?thesis
    using radix_cancel [OF assms] by simp
qed

lemma mont_pow_1: "mont_pow x 1 = x mod p751"
  using radix_cancel [OF montgomeryRinv_inverse, of x]
  by (simp only: mont_pow_def power_one_right mult.assoc)

lemma mont_mul_pow: "mont_mul (mont_pow x m) (mont_pow x n) = mont_pow x (m + n)"
  unfolding mont_mul_def mont_pow_def
  by (rule mont_pow_add_generic [OF montgomeryRinv_inverse])

lemma mont_pow_mod: "mont_pow x n mod p751 = mont_pow x n"
  by (simp add: mont_pow_def)

lemma mont_pow_range: "0 \<le> mont_pow x n \<and> mont_pow x n < p751"
  using p751_gt_1 by (simp add: mont_pow_def)

section \<open>The exponent of the sliding-window chain\<close>

text \<open>\<open>d\<close> holds, up to reduction modulo \<open>p\<close>, the \<open>n\<close>-fold Montgomery product of \<open>x\<close>.\<close>

definition pow_of :: "PrimeFieldElement \<Rightarrow> nat \<Rightarrow> PrimeFieldElement \<Rightarrow> bool" where
  "pow_of x n d = (fp751_val (prime_a d) mod p751 = mont_pow (fp751_val (prime_a x)) n)"

lemma pow_of_self: "pow_of x 1 x"
  by (simp only: pow_of_def mont_pow_1)

lemma pow_of_exact:
  "fp751_val (prime_a d) = mont_pow (fp751_val (prime_a x)) n \<Longrightarrow> pow_of x n d"
  by (simp only: pow_of_def mont_pow_mod)

lemma val_Mul_pow:
  assumes "pow_of x m a" and "pow_of x n b"
  shows "fp751_val (prime_a (PrimeFieldElement_Mul a b)) = mont_pow (fp751_val (prime_a x)) (m + n)"
proof -
  have "mont_mul (fp751_val (prime_a a)) (fp751_val (prime_a b))
        = mont_mul (fp751_val (prime_a a) mod p751) (fp751_val (prime_a b) mod p751)"
    by (simp only: mont_mul_mod_left mont_mul_mod_right)
  then show ?thesis
    using assms by (simp only: val_Mul pow_of_def mont_mul_pow)
qed

lemma pow_of_Mul: "pow_of x m a \<Longrightarrow> pow_of x n b \<Longrightarrow> pow_of x (m + n) (PrimeFieldElement_Mul a b)"
  by (rule pow_of_exact) (rule val_Mul_pow)

lemma Square_eq_Mul: "PrimeFieldElement_Square x = PrimeFieldElement_Mul x x"
  by (simp add: PrimeFieldElement_Square_def PrimeFieldElement_Mul_def)

lemma pow_of_Square: "pow_of x n d \<Longrightarrow> pow_of x (n * 2) (PrimeFieldElement_Square d)"
  using pow_of_Mul [of x n d n d] by (simp add: Square_eq_Mul mult_2_right)

lemma pow_of_Pow2k_loop:
  "pow_of x n d \<Longrightarrow> pow_of x (n * 2 ^ (unat k - unat i)) (Pow2k_loop i k d)"
proof (induction i k d arbitrary: n rule: Pow2k_loop.induct)
  case (1 i k dest)
  show ?case
  proof (cases "i < k")
    case True
    then have lt: "unat i < unat k"
      by (simp add: word_less_nat_alt)
    moreover have "unat k < 256"
      using unsigned_less [of k, where ?'a = nat] by simp
    ultimately have "unat (i + 1) = unat i + 1"
      by (simp add: unat_word_ariths)
    with lt have e: "unat k - unat i = Suc (unat k - unat (i + 1))"
      by simp
    have "pow_of x (n * 2 * 2 ^ (unat k - unat (i + 1)))
            (Pow2k_loop (i + 1) k (PrimeFieldElement_Square dest))"
      using True "1.prems" by (intro "1.IH" pow_of_Square)
    then show ?thesis
      using True by (subst Pow2k_loop.simps) (simp add: e mult.assoc)
  next
    case False
    then have "unat k - unat i = 0"
      by (simp add: word_less_nat_alt)
    with False "1.prems" show ?thesis
      by (simp add: Pow2k_loop_stop)
  qed
qed

lemma pow_of_Pow2k:
  assumes "pow_of x n d"
  shows "pow_of x (n * 2 ^ max 1 (unat k)) (PrimeFieldElement_Pow2k d k)"
proof -
  have "pow_of x (n * 2 * 2 ^ (unat k - unat (1 :: 8 word)))
          (Pow2k_loop 1 k (PrimeFieldElement_Square d))"
    using assms by (intro pow_of_Pow2k_loop pow_of_Square)
  moreover have "Suc (unat k - 1) = max 1 (unat k)"
    by simp
  then have "n * 2 * 2 ^ (unat k - unat (1 :: 8 word)) = n * 2 ^ max 1 (unat k)"
    by (simp add: mult.assoc flip: power_Suc)
  ultimately show ?thesis
    by (simp only: PrimeFieldElement_Pow2k_def)
qed

lemma P34_lookup_invariant:
  assumes "k \<le> 16" and "1 \<le> k"
  defines "step \<equiv> \<lambda>xx i (lookup :: PrimeFieldElement list).
             lookup[i := PrimeFieldElement_Mul (lookup ! (i - 1)) xx]"
  shows "length (fold (step (PrimeFieldElement_Square x)) [1..<k]
                   ((replicate 16 PrimeFieldElement_zero)[0 := x])) = 16
         \<and> (\<forall>j<k. pow_of x (2 * j + 1)
               (fold (step (PrimeFieldElement_Square x)) [1..<k]
                  ((replicate 16 PrimeFieldElement_zero)[0 := x]) ! j))"
  using assms(1,2)
proof (induction k)
  case 0
  then show ?case by simp
next
  case (Suc k)
  let ?xx = "PrimeFieldElement_Square x"
  let ?init = "(replicate 16 PrimeFieldElement_zero)[0 := x]"
  show ?case
  proof (cases "k = 0")
    case True
    then show ?thesis
      using pow_of_self [of x] by simp
  next
    case False
    then have k: "1 \<le> k" "k \<le> 16" "k < 16"
      using Suc.prems by simp_all
    let ?l = "fold (step ?xx) [1..<k] ?init"
    have IH: "length ?l = 16" "\<And>j. j < k \<Longrightarrow> pow_of x (2 * j + 1) (?l ! j)"
      using Suc.IH k by simp_all
    have u: "[1..<Suc k] = [1..<k] @ [k]"
      using k by simp
    have f: "fold (step ?xx) [1..<Suc k] ?init = ?l[k := PrimeFieldElement_Mul (?l ! (k - 1)) ?xx]"
      unfolding u fold_append by (simp add: step_def)
    have sq: "pow_of x 2 ?xx"
      using pow_of_Square [OF pow_of_self, of x] by simp
    have "pow_of x (2 * (k - 1) + 1) (?l ! (k - 1))"
      using k by (intro IH) simp
    then have "pow_of x (2 * (k - 1) + 1 + 2) (PrimeFieldElement_Mul (?l ! (k - 1)) ?xx)"
      using sq by (rule pow_of_Mul)
    moreover have "2 * (k - 1) + 1 + 2 = 2 * k + 1"
      using k by simp
    ultimately have new: "pow_of x (2 * k + 1) (PrimeFieldElement_Mul (?l ! (k - 1)) ?xx)"
      by simp
    show ?thesis
      unfolding f using IH k new by (auto simp: nth_list_update less_Suc_eq)
  qed
qed

lemma P34_lookup_pow: "j < 16 \<Longrightarrow> pow_of x (2 * j + 1) (P34_lookup x ! j)"
  using P34_lookup_invariant [of 16 x] by (simp add: P34_lookup_def Let_def)

text \<open>The exponent the chain has built after \<open>n\<close> rounds: each round shifts the exponent by
  the number of squarings \<open>Pow2k\<close> performs and adds the odd multiplier.\<close>

definition P34_exponent :: "nat \<Rightarrow> nat" where
  "P34_exponent n =
     fold (\<lambda>i e. e * 2 ^ max 1 (unat (powStrategy ! i)) + (2 * unat (mulStrategy ! i div 2) + 1))
       [0..<n] (2 * unat (initialMul div 2) + 1)"

lemma mulStrategy_index: "\<forall>w \<in> set mulStrategy. unat (w div 2) < 16"
  by (simp add: mulStrategy_def)

lemma length_mulStrategy: "length mulStrategy = 137"
  by (simp add: mulStrategy_def)

lemma fold_index_zip:
  "n \<le> length xs \<Longrightarrow> n \<le> length ys \<Longrightarrow>
   fold (\<lambda>i. f (xs ! i) (ys ! i)) [0..<n] a = fold (\<lambda>(x, y). f x y) (take n (zip xs ys)) a"
proof (induction n)
  case 0
  show ?case by simp
next
  case (Suc n)
  then have "take (Suc n) (zip xs ys) = take n (zip xs ys) @ [(xs ! n, ys ! n)]"
    by (simp add: take_Suc_conv_app_nth)
  with Suc show ?case
    by simp
qed

lemma length_powStrategy: "length powStrategy = 137"
  by (simp add: powStrategy_def)

lemma P34_exponent_as_zip:
  "P34_exponent 137 =
     fold (\<lambda>(k, m) e. e * 2 ^ max 1 (unat k) + (2 * unat (m div 2) + 1))
       (zip powStrategy mulStrategy) (2 * unat (initialMul div 2) + 1)"
  unfolding P34_exponent_def
  by (subst fold_index_zip [where f = "\<lambda>k m e. e * 2 ^ max 1 (unat k) + (2 * unat (m div 2) + 1)"])
     (simp_all add: length_powStrategy length_mulStrategy)

lemma P34_exponent_value:
  "P34_exponent 137 = 2588679435442326313244442059466701330356847411387267792529047419763669735170619711625720724140266678406138302904710050596300977994130638598261040117192787954244176710019728333589599932738193731745058771712747875468166412894207"
  unfolding P34_exponent_as_zip
  by (simp add: powStrategy_def mulStrategy_def initialMul_def)

lemma P34_exponent_p751: "int (P34_exponent 137) = (p751 - 3) div 4"
proof -
  have "4 * (2588679435442326313244442059466701330356847411387267792529047419763669735170619711625720724140266678406138302904710050596300977994130638598261040117192787954244176710019728333589599932738193731745058771712747875468166412894207 :: int) + 4 = 2 ^ 372 * 3 ^ 239"
    by simp
  then have "p751 - 3 = 4 * int (P34_exponent 137)"
    unfolding P34_exponent_value p751_def by simp
  then show ?thesis
    by simp
qed

lemma P34_round_pow:
  assumes "pow_of x e d" and "i < 137"
  shows "fp751_val (prime_a
           (PrimeFieldElement_Mul (PrimeFieldElement_Pow2k d (powStrategy ! i))
              (P34_lookup x ! unat (mulStrategy ! i div 2))))
         = mont_pow (fp751_val (prime_a x))
             (e * 2 ^ max 1 (unat (powStrategy ! i)) + (2 * unat (mulStrategy ! i div 2) + 1))"
proof -
  have "mulStrategy ! i \<in> set mulStrategy"
    using assms(2) by (simp add: length_mulStrategy)
  then have "unat (mulStrategy ! i div 2) < 16"
    using mulStrategy_index by blast
  then have "pow_of x (2 * unat (mulStrategy ! i div 2) + 1)
               (P34_lookup x ! unat (mulStrategy ! i div 2))"
    by (rule P34_lookup_pow)
  with pow_of_Pow2k [OF assms(1)] show ?thesis
    by (rule val_Mul_pow)
qed

lemma P34_loop_pow:
  assumes "n \<le> 137"
  shows "pow_of x (P34_exponent n)
           (fold (\<lambda>i dest.
                    let dest = PrimeFieldElement_Pow2k dest (powStrategy ! i)
                    in PrimeFieldElement_Mul dest (P34_lookup x ! unat (mulStrategy ! i div 2)))
              [0..<n] (P34_lookup x ! unat (initialMul div 2)))"
  using assms
proof (induction n)
  case 0
  have "unat (initialMul div 2) < 16"
    by (simp add: initialMul_def)
  then show ?case
    using P34_lookup_pow [of "unat (initialMul div 2)" x] by (simp add: P34_exponent_def)
next
  case (Suc n)
  then have "n < 137" and IH: "pow_of x (P34_exponent n)
           (fold (\<lambda>i dest.
                    let dest = PrimeFieldElement_Pow2k dest (powStrategy ! i)
                    in PrimeFieldElement_Mul dest (P34_lookup x ! unat (mulStrategy ! i div 2)))
              [0..<n] (P34_lookup x ! unat (initialMul div 2)))"
    by simp_all
  have "P34_exponent (Suc n)
        = P34_exponent n * 2 ^ max 1 (unat (powStrategy ! n))
          + (2 * unat (mulStrategy ! n div 2) + 1)"
    by (simp add: P34_exponent_def)
  then show ?case
    using P34_round_pow [OF IH \<open>n < 137\<close>] by (simp add: Let_def pow_of_exact)
qed

lemma val_P34:
  "fp751_val (prime_a (PrimeFieldElement_P34 x))
     = mont_pow (fp751_val (prime_a x)) (nat ((p751 - 3) div 4))"
proof -
  have "pow_of x (P34_exponent 137) (PrimeFieldElement_P34 x)"
    using P34_loop_pow [of 137 x] by (simp add: PrimeFieldElement_P34_def Let_def)
  moreover
  have s: "(137::nat) = Suc 136"
    by simp
  have "[0..<137] = [0..<136] @ [136]"
    by (subst s, rule upt_Suc_append) simp
  then have "\<exists>a b. PrimeFieldElement_P34 x = PrimeFieldElement_Mul a b"
    unfolding PrimeFieldElement_P34_def Let_def by (simp only: fold_append) auto
  then have "fp751_val (prime_a (PrimeFieldElement_P34 x)) mod p751
             = fp751_val (prime_a (PrimeFieldElement_P34 x))"
    by (auto simp: val_Mul mont_mul_mod)
  moreover have "nat ((p751 - 3) div 4) = P34_exponent 137"
    by (simp flip: P34_exponent_p751)
  ultimately show ?thesis
    by (simp add: pow_of_def)
qed

section \<open>Square-and-multiply\<close>

text \<open>
  Following the spec (``naive square-and-multiply over the exponent (p\<minus>3)/4''): the
  exponent's bits, most significant first, and the left-to-right method, which starts
  from the field's one (\<open>montgomeryR\<close>), squares for every bit and multiplies by \<open>x\<close>
  for every bit that is set.
\<close>

fun bits_msb :: "nat \<Rightarrow> bool list" where
  "bits_msb n = (if n = 0 then [] else bits_msb (n div 2) @ [odd n])"

declare bits_msb.simps [simp del]

fun square_and_multiply ::
    "PrimeFieldElement \<Rightarrow> bool list \<Rightarrow> PrimeFieldElement \<Rightarrow> PrimeFieldElement" where
  "square_and_multiply x [] acc = acc"
| "square_and_multiply x (b # bs) acc =
     square_and_multiply x bs
       (let acc = PrimeFieldElement_Square acc
        in if b then PrimeFieldElement_Mul acc x else acc)"

definition P34_naive :: "PrimeFieldElement \<Rightarrow> PrimeFieldElement" where
  "P34_naive x =
     square_and_multiply x (bits_msb (nat ((p751 - 3) div 4))) \<lparr>prime_a = montgomeryR\<rparr>"

lemma val_montgomeryR:
  "fp751_val montgomeryR = 4197124011690654263763254418832999313205390587723390021370876345775073030785438161667498556062376617594019483505141950801909738858243631997163476916033829686389367298192589907338770656041698335411916886759900618467715947055533"
  by transfer simp

lemma montgomeryR_radix: "fp751_val montgomeryR = 2 ^ 768 mod p751"
proof -
  have "(2::int) ^ 768 + 149933 = 149933 * (2 ^ 372 * 3 ^ 239) + 4197124011690654263763254418832999313205390587723390021370876345775073030785438161667498556062376617594019483505141950801909738858243631997163476916033829686389367298192589907338770656041698335411916886759900618467715947055533"
    by simp
  then have e: "(2::int) ^ 768 = 149933 * p751 + fp751_val montgomeryR"
    unfolding val_montgomeryR p751_def by (simp only: algebra_simps)
  have "(4197124011690654263763254418832999313205390587723390021370876345775073030785438161667498556062376617594019483505141950801909738858243631997163476916033829686389367298192589907338770656041698335411916886759900618467715947055533 :: int) + 1 < 2 ^ 372 * 3 ^ 239"
    by simp
  then have "fp751_val montgomeryR < p751"
    unfolding val_montgomeryR p751_def by simp
  then have "fp751_val montgomeryR mod p751 = fp751_val montgomeryR"
    using fp751_val_nonneg [of montgomeryR] by simp
  moreover have "(2::int) ^ 768 mod p751 = fp751_val montgomeryR mod p751"
    unfolding e by simp
  ultimately show ?thesis
    by simp
qed

lemma montgomeryR_less: "fp751_val montgomeryR < p751"
  using p751_gt_1 by (simp add: montgomeryR_radix)

lemma pow_of_one: "pow_of x 0 \<lparr>prime_a = montgomeryR\<rparr>"
  by (simp add: pow_of_def mont_pow_def montgomeryR_radix)

lemma bits_msb_value: "foldl (\<lambda>v b. 2 * v + (if b then 1 else 0)) 0 (bits_msb n) = n"
proof (induction n rule: bits_msb.induct)
  case (1 n)
  show ?case
  proof (cases "n = 0")
    case True
    then show ?thesis
      by (simp add: bits_msb.simps)
  next
    case False
    have "2 * (n div 2) + (if odd n then 1 else 0) = n"
      by (simp add: odd_iff_mod_2_eq_one) presburger
    with False "1.IH" show ?thesis
      by (subst bits_msb.simps) simp
  qed
qed

lemma pow_of_square_and_multiply:
  "pow_of x n acc \<Longrightarrow>
   pow_of x (foldl (\<lambda>v b. 2 * v + (if b then 1 else 0)) n bs) (square_and_multiply x bs acc)"
proof (induction bs arbitrary: n acc)
  case Nil
  then show ?case by simp
next
  case (Cons b bs)
  have sq: "pow_of x (n * 2) (PrimeFieldElement_Square acc)"
    using Cons.prems by (rule pow_of_Square)
  show ?case
  proof (cases b)
    case True
    have "pow_of x (n * 2 + 1) (PrimeFieldElement_Mul (PrimeFieldElement_Square acc) x)"
      using sq pow_of_self by (rule pow_of_Mul)
    then show ?thesis
      using True Cons.IH by (simp add: mult.commute)
  next
    case False
    with sq Cons.IH show ?thesis
      by (simp add: mult.commute)
  qed
qed

text \<open>The values the operations leave are canonical: below \<open>p\<close>.\<close>

lemma Mul_canonical: "fp751_val (prime_a (PrimeFieldElement_Mul a b)) < p751"
  using mont_mul_range by (simp add: val_Mul)

lemma square_and_multiply_canonical:
  "fp751_val (prime_a acc) < p751 \<Longrightarrow> fp751_val (prime_a (square_and_multiply x bs acc)) < p751"
  by (induction bs arbitrary: acc) (simp_all add: Let_def Mul_canonical Square_eq_Mul)

lemma val_P34_naive:
  "fp751_val (prime_a (P34_naive x)) = mont_pow (fp751_val (prime_a x)) (nat ((p751 - 3) div 4))"
proof -
  let ?e = "nat ((p751 - 3) div 4)"
  have "pow_of x (foldl (\<lambda>v b. 2 * v + (if b then 1 else 0)) 0 (bits_msb ?e)) (P34_naive x)"
    unfolding P34_naive_def by (rule pow_of_square_and_multiply) (rule pow_of_one)
  then have "pow_of x ?e (P34_naive x)"
    by (simp only: bits_msb_value)
  moreover have "fp751_val (prime_a (P34_naive x)) < p751"
    unfolding P34_naive_def
    by (rule square_and_multiply_canonical) (simp add: montgomeryR_less)
  then have "fp751_val (prime_a (P34_naive x)) mod p751 = fp751_val (prime_a (P34_naive x))"
    using fp751_val_nonneg [of "prime_a (P34_naive x)"] by simp
  ultimately show ?thesis
    by (simp add: pow_of_def)
qed

text \<open>
  C1: the fixed sliding-window chain of \<open>P34\<close> (the table of the 16 odd powers, the
  accumulator started from the entry for exponent 27, 137 rounds of \<open>Pow2k\<close> and \<open>Mul\<close>)
  leaves in \<open>dest\<close> exactly what naive square-and-multiply over the exponent
  \<open>(p - 3) / 4\<close> computes: the \<open>(p - 3) / 4\<close>-fold Montgomery product of \<open>x\<close>.
\<close>

theorem P34_chain_is_square_and_multiply:
  "PrimeFieldElement_P34 x = P34_naive x
   \<and> fp751_val (prime_a (PrimeFieldElement_P34 x))
       = mont_pow (fp751_val (prime_a x)) (nat ((p751 - 3) div 4))"
proof
  show "PrimeFieldElement_P34 x = P34_naive x"
    by (rule PrimeFieldElement_eqI) (simp only: val_P34 val_P34_naive)
  show "fp751_val (prime_a (PrimeFieldElement_P34 x))
          = mont_pow (fp751_val (prime_a x)) (nat ((p751 - 3) div 4))"
    by (rule val_P34)
qed

section \<open>Karatsuba multiplication in the extension field\<close>

text \<open>
  Following the spec (``the direct 4-multiplication formula (ac\<minus>bd, ad+bc)''): the product
  with four field multiplications, one field subtraction and one field addition.
\<close>

definition ExtensionFieldElement_Mul_direct ::
    "ExtensionFieldElement \<Rightarrow> ExtensionFieldElement \<Rightarrow> ExtensionFieldElement" where
  "ExtensionFieldElement_Mul_direct lhs rhs =
     (let a = \<lparr>prime_a = ext_a lhs\<rparr>;
          b = \<lparr>prime_a = ext_b lhs\<rparr>;
          c = \<lparr>prime_a = ext_a rhs\<rparr>;
          d = \<lparr>prime_a = ext_b rhs\<rparr>;
          ac = PrimeFieldElement_Mul a c;
          bd = PrimeFieldElement_Mul b d;
          ad = PrimeFieldElement_Mul a d;
          bc = PrimeFieldElement_Mul b c
      in \<lparr>ext_a = prime_a (PrimeFieldElement_Sub ac bd),
          ext_b = prime_a (PrimeFieldElement_Add ad bc)\<rparr>)"

text \<open>The range of a field element's limbs: \<open>[0, 2p)\<close>, the domain of the strong reduction.\<close>

definition fp751_in_range :: "fp751Element \<Rightarrow> bool" where
  "fp751_in_range x = (fp751_val x < 2 * p751)"

lemma val_AddReduced: "fp751_val (fp751AddReduced x y) = (fp751_val x + fp751_val y) mod p751"
  by (simp only: fp751AddReduced_def val_of_residue)

lemma val_SubReduced: "fp751_val (fp751SubReduced x y) = (fp751_val x - fp751_val y) mod p751"
  by (simp only: fp751SubReduced_def val_of_residue)

lemma p751_double_less: "2 * p751 < 2 ^ 752"
proof -
  have "(2::int) * 2 ^ 751 = 2 ^ 752"
    by (simp only: power_Suc [symmetric]) simp
  then show ?thesis
    using p751_less by linarith
qed

lemma residue_less_752: "u mod p751 < 2 ^ 752"
proof -
  have "u mod p751 < p751"
    using p751_gt_1 by simp
  then show ?thesis
    using p751_double_less p751_gt_1 by linarith
qed

lemma in_range_less_752: "fp751_in_range x \<Longrightarrow> fp751_val x < 2 ^ 752"
  unfolding fp751_in_range_def using p751_double_less by linarith

lemma in_range_product:
  assumes "fp751_in_range x" and "fp751_in_range y"
  shows "0 \<le> fp751_val x * fp751_val y" and "fp751_val x * fp751_val y < 2 ^ 1504"
proof -
  have x: "0 \<le> fp751_val x" "fp751_val x < 2 ^ 752"
    using assms(1) by (simp_all only: fp751_val_nonneg in_range_less_752)
  have y: "0 \<le> fp751_val y" "fp751_val y < 2 ^ 752"
    using assms(2) by (simp_all only: fp751_val_nonneg in_range_less_752)
  show "0 \<le> fp751_val x * fp751_val y"
    using x y by simp
  have "fp751_val x * fp751_val y < 2 ^ 752 * 2 ^ 752"
    using x y by (intro mult_strict_mono) simp_all
  also have "(2::int) ^ 752 * 2 ^ 752 = 2 ^ 1504"
    by (simp only: power_add [symmetric]) simp
  finally show "fp751_val x * fp751_val y < 2 ^ 1504" .
qed

lemma residue_product:
  fixes u v :: int
  shows "0 \<le> (u mod p751) * (v mod p751)" and "(u mod p751) * (v mod p751) < 2 ^ 1504"
proof -
  have u: "0 \<le> u mod p751" "u mod p751 < 2 ^ 752"
    using p751_gt_1 by (simp, intro residue_less_752)
  have v: "0 \<le> v mod p751" "v mod p751 < 2 ^ 752"
    using p751_gt_1 by (simp, intro residue_less_752)
  show "0 \<le> (u mod p751) * (v mod p751)"
    using u v by simp
  have "(u mod p751) * (v mod p751) < 2 ^ 752 * 2 ^ 752"
    using u v by (intro mult_strict_mono) simp_all
  also have "(2::int) ^ 752 * 2 ^ 752 = 2 ^ 1504"
    by (simp only: power_add [symmetric]) simp
  finally show "(u mod p751) * (v mod p751) < 2 ^ 1504" .
qed

lemma X2_val_of_small: "0 \<le> n \<Longrightarrow> n < 2 ^ 1536 \<Longrightarrow> fp751X2_val (fp751X2_of n) = n"
  by (simp only: fp751X2_val_of mod_pos_pos_trivial)

lemma four_products_fit: "(4::int) * 2 ^ 1504 \<le> 2 ^ 1536"
proof -
  have "(4::int) * 2 ^ 1504 = 2 ^ 1506"
    by simp
  moreover have "(2::int) ^ 1506 \<le> 2 ^ 1536"
    by (rule power_increasing) simp_all
  ultimately show ?thesis
    by (simp only:)
qed

lemma multiple_mod_cancel:
  fixes p x k I :: int
  shows "((x + p * k) * I) mod p = (x * I) mod p"
proof -
  have "(x + p * k) * I = x * I + p * (k * I)"
    by (simp add: algebra_simps)
  then show ?thesis
    by simp
qed

lemma mod_product_sum:
  fixes p u v w :: int
  shows "((u mod p) * (v mod p) + w) mod p = (u * v + w) mod p"
  by (rule mod_add_cong) (simp_all add: mod_mult_eq)

lemma val_ExtMul_b:
  assumes "fp751_in_range (ext_a lhs)" "fp751_in_range (ext_b lhs)"
    and "fp751_in_range (ext_a rhs)" "fp751_in_range (ext_b rhs)"
  shows "fp751_val (ext_b (ExtensionFieldElement_Mul lhs rhs))
         = ((fp751_val (ext_a lhs) * fp751_val (ext_b rhs)
             + fp751_val (ext_b lhs) * fp751_val (ext_a rhs)) * montgomeryRinv) mod p751"
proof -
  define a b c d where "a = fp751_val (ext_a lhs)" and "b = fp751_val (ext_b lhs)"
    and "c = fp751_val (ext_a rhs)" and "d = fp751_val (ext_b rhs)"
  define B C where "B = (b - a) mod p751" and "C = (c - d) mod p751"
  have ac: "0 \<le> a * c" "a * c < 2 ^ 1504"
    unfolding a_def c_def using assms by (simp_all only: in_range_product)
  have bd: "0 \<le> b * d" "b * d < 2 ^ 1504"
    unfolding b_def d_def using assms by (simp_all only: in_range_product)
  have BC: "0 \<le> B * C" "B * C < 2 ^ 1504"
    unfolding B_def C_def by (rule residue_product)+
  have s1: "fp751X2_val (fp751X2_of (B * C + a * c)) = B * C + a * c"
    using ac BC four_products_fit by (intro X2_val_of_small) linarith+
  have s2: "fp751X2_val (fp751X2_of (B * C + a * c + b * d)) = B * C + a * c + b * d"
    using ac bd BC four_products_fit by (intro X2_val_of_small) linarith+
  have "fp751_val (ext_b (ExtensionFieldElement_Mul lhs rhs))
        = ((B * C + a * c + b * d) * montgomeryRinv) mod p751"
    by (simp add: ExtensionFieldElement_Mul_def Let_def val_MontgomeryReduce fp751X2AddLazy_def
          val_fp751Mul val_SubReduced s1 s2
          flip: a_def b_def c_def d_def B_def C_def)
  also have "\<dots> = (((B * C + a * c + b * d) mod p751) * montgomeryRinv) mod p751"
    by (simp only: mod_mult_left_eq)
  also have "(B * C + a * c + b * d) mod p751 = ((b - a) * (c - d) + a * c + b * d) mod p751"
    unfolding B_def C_def by (simp only: add.assoc mod_product_sum)
  also have "(b - a) * (c - d) + a * c + b * d = a * d + b * c"
    by (simp add: algebra_simps)
  finally show ?thesis
    by (simp only: mod_mult_left_eq a_def b_def c_def d_def)
qed

lemma p751_ge: "2 ^ 750 \<le> p751"
proof -
  have "(2::int) ^ 378 < 3 ^ 239"
    by simp
  then have "(2::int) ^ 372 * 2 ^ 378 < 2 ^ 372 * 3 ^ 239"
    by (intro mult_strict_left_mono) simp_all
  moreover have "(2::int) ^ 372 * 2 ^ 378 = 2 ^ 750"
    by (simp only: power_add [symmetric]) simp
  ultimately show ?thesis
    using p751_succ by linarith
qed

lemma borrow_representative:
  assumes "0 \<le> u" "u < 2 ^ 1504" "0 \<le> v" "v < 2 ^ 1504" "u < v"
  shows "0 \<le> u - v + p751 * 2 ^ 768" and "u - v + p751 * 2 ^ 768 < 2 ^ 1536"
proof -
  have "(2::int) ^ 750 * 2 ^ 768 \<le> p751 * 2 ^ 768"
    using p751_ge by (intro mult_right_mono) simp_all
  moreover have "(2::int) ^ 750 * 2 ^ 768 = 2 ^ 1518"
    by (simp only: power_add [symmetric]) simp
  moreover have "(2::int) ^ 1504 \<le> 2 ^ 1518"
    by (rule power_increasing) simp_all
  ultimately show "0 \<le> u - v + p751 * 2 ^ 768"
    using assms by linarith
  have "p751 * 2 ^ 768 < (2::int) ^ 751 * 2 ^ 768"
    using p751_less by (intro mult_strict_right_mono) simp_all
  moreover have "(2::int) ^ 751 * 2 ^ 768 = 2 ^ 1519"
    by (simp only: power_add [symmetric]) simp
  moreover have "(2::int) ^ 1519 \<le> 2 ^ 1536"
    by (rule power_increasing) simp_all
  ultimately show "u - v + p751 * 2 ^ 768 < 2 ^ 1536"
    using assms by linarith
qed

lemma val_X2SubLazy_reduced:
  assumes "0 \<le> fp751X2_val x" "fp751X2_val x < 2 ^ 1504"
    and "0 \<le> fp751X2_val y" "fp751X2_val y < 2 ^ 1504"
  shows "(fp751X2_val (fp751X2SubLazy x y) * montgomeryRinv) mod p751
         = ((fp751X2_val x - fp751X2_val y) * montgomeryRinv) mod p751"
proof (cases "fp751X2_val y \<le> fp751X2_val x")
  case True
  have "(2::int) ^ 1504 \<le> 2 ^ 1536"
    by (rule power_increasing) simp_all
  with True assms have "fp751X2_val (fp751X2_of (fp751X2_val x - fp751X2_val y))
      = fp751X2_val x - fp751X2_val y"
    by (intro X2_val_of_small) linarith+
  with True show ?thesis
    by (simp add: fp751X2SubLazy_def)
next
  case False
  then have lt: "fp751X2_val x < fp751X2_val y"
    by simp
  have "fp751X2_val (fp751X2_of (fp751X2_val x - fp751X2_val y + p751 * 2 ^ 768))
      = fp751X2_val x - fp751X2_val y + p751 * 2 ^ 768"
    using borrow_representative [OF assms lt] by (intro X2_val_of_small)
  with False show ?thesis
    by (simp only: fp751X2SubLazy_def if_False multiple_mod_cancel)
qed

lemma val_ExtMul_a:
  assumes "fp751_in_range (ext_a lhs)" "fp751_in_range (ext_b lhs)"
    and "fp751_in_range (ext_a rhs)" "fp751_in_range (ext_b rhs)"
  shows "fp751_val (ext_a (ExtensionFieldElement_Mul lhs rhs))
         = ((fp751_val (ext_a lhs) * fp751_val (ext_a rhs)
             - fp751_val (ext_b lhs) * fp751_val (ext_b rhs)) * montgomeryRinv) mod p751"
proof -
  have "(fp751X2_val (fp751X2SubLazy (fp751Mul (ext_a lhs) (ext_a rhs))
                        (fp751Mul (ext_b lhs) (ext_b rhs))) * montgomeryRinv) mod p751
        = ((fp751X2_val (fp751Mul (ext_a lhs) (ext_a rhs))
            - fp751X2_val (fp751Mul (ext_b lhs) (ext_b rhs))) * montgomeryRinv) mod p751"
    using assms by (intro val_X2SubLazy_reduced) (simp_all only: val_fp751Mul in_range_product)
  then show ?thesis
    by (simp add: ExtensionFieldElement_Mul_def Let_def val_MontgomeryReduce val_fp751Mul)
qed

lemma val_ExtMul_direct_a:
  "fp751_val (ext_a (ExtensionFieldElement_Mul_direct lhs rhs))
   = ((fp751_val (ext_a lhs) * fp751_val (ext_a rhs)
       - fp751_val (ext_b lhs) * fp751_val (ext_b rhs)) * montgomeryRinv) mod p751"
  by (simp add: ExtensionFieldElement_Mul_direct_def Let_def PrimeFieldElement_Sub_def
        val_SubReduced val_Mul mont_mul_def mod_diff_eq left_diff_distrib)

lemma val_ExtMul_direct_b:
  "fp751_val (ext_b (ExtensionFieldElement_Mul_direct lhs rhs))
   = ((fp751_val (ext_a lhs) * fp751_val (ext_b rhs)
       + fp751_val (ext_b lhs) * fp751_val (ext_a rhs)) * montgomeryRinv) mod p751"
  by (simp add: ExtensionFieldElement_Mul_direct_def Let_def PrimeFieldElement_Add_def
        val_AddReduced val_Mul mont_mul_def mod_add_eq distrib_right)

lemma ExtensionFieldElement_eqI:
  "fp751_val (ext_a x) = fp751_val (ext_a y) \<Longrightarrow> fp751_val (ext_b x) = fp751_val (ext_b y)
   \<Longrightarrow> x = (y :: ExtensionFieldElement)"
  by (cases x, cases y) (simp add: fp751_val_inject)

text \<open>
  C4: for extension-field elements \<open>lhs = a + bi\<close> and \<open>rhs = c + di\<close> whose coordinates
  are in range, the Karatsuba product of \<open>Mul\<close> (three limb multiplications) leaves in
  \<open>dest\<close> exactly the direct product \<open>(ac - bd) + (ad + bc)i\<close> of four field
  multiplications.
\<close>

theorem ExtensionFieldElement_Mul_is_direct_product:
  assumes "fp751_in_range (ext_a lhs)" and "fp751_in_range (ext_b lhs)"
    and "fp751_in_range (ext_a rhs)" and "fp751_in_range (ext_b rhs)"
  shows "ExtensionFieldElement_Mul lhs rhs = ExtensionFieldElement_Mul_direct lhs rhs"
  by (rule ExtensionFieldElement_eqI)
     (simp_all only: val_ExtMul_a [OF assms] val_ExtMul_b [OF assms]
        val_ExtMul_direct_a val_ExtMul_direct_b)

lemma zero_in_range: "fp751_in_range fp751_zero"
  using p751_gt_1 by (simp add: fp751_in_range_def fp751_val_zero)

lemma montgomeryR_in_range: "fp751_in_range montgomeryR"
  using montgomeryR_less p751_gt_1 by (simp add: fp751_in_range_def)

theorem ExtensionFieldElement_Mul_is_direct_product_witness:
  "fp751_in_range montgomeryR \<and> fp751_in_range fp751_zero
   \<and> ExtensionFieldElement_Mul \<lparr>ext_a = montgomeryR, ext_b = fp751_zero\<rparr>
         \<lparr>ext_a = fp751_zero, ext_b = montgomeryR\<rparr>
       = ExtensionFieldElement_Mul_direct \<lparr>ext_a = montgomeryR, ext_b = fp751_zero\<rparr>
           \<lparr>ext_a = fp751_zero, ext_b = montgomeryR\<rparr>"
  using ExtensionFieldElement_Mul_is_direct_product
          [of "\<lparr>ext_a = montgomeryR, ext_b = fp751_zero\<rparr>"
              "\<lparr>ext_a = fp751_zero, ext_b = montgomeryR\<rparr>"]
  by (simp add: zero_in_range montgomeryR_in_range)

section \<open>Variable-time equality\<close>

lemma fold_limbs_equal:
  "fold (\<lambda>i eq. (f i = g i) \<and> eq) [0..<n] True \<longleftrightarrow> (\<forall>i<n. f i = g i)"
  by (induction n) (auto simp: less_Suc_eq)

lemma fp751_limbs_eq_iff:
  "(\<forall>i<fp751NumWords. fp751_limb x i = fp751_limb y i) \<longleftrightarrow> x = y"
proof
  assume "\<forall>i<fp751NumWords. fp751_limb x i = fp751_limb y i"
  moreover have "length (Rep_fp751Element x) = fp751NumWords"
    "length (Rep_fp751Element y) = fp751NumWords"
    using Rep_fp751Element [of x] Rep_fp751Element [of y] by simp_all
  ultimately have "Rep_fp751Element x = Rep_fp751Element y"
    by (intro nth_equalityI) (simp_all add: fp751_limb_def)
  then show "x = y"
    by (simp only: Rep_fp751Element_inject)
qed simp

lemma val_StrongReduce:
  assumes "fp751_in_range x"
  shows "fp751_val (fp751StrongReduce x) = fp751_val x mod p751"
proof (cases "p751 \<le> fp751_val x")
  case True
  with assms have r: "0 \<le> fp751_val x - p751" "fp751_val x - p751 < p751"
    by (simp_all add: fp751_in_range_def)
  then have "(fp751_val x - p751) mod p751 = fp751_val x - p751"
    by (intro mod_pos_pos_trivial)
  moreover have "(fp751_val x - p751) mod p751 = fp751_val x mod p751"
    by simp
  moreover have "fp751_val (fp751_of ((fp751_val x - p751) mod p751)) = (fp751_val x - p751) mod p751"
    by (rule val_of_residue)
  ultimately show ?thesis
    using True by (simp add: fp751StrongReduce_def)
next
  case False
  then have "fp751_val x mod p751 = fp751_val x"
    using fp751_val_nonneg [of x] by simp
  with False show ?thesis
    by (simp add: fp751StrongReduce_def)
qed

lemma vartimeEq_iff:
  assumes "fp751_in_range x" and "fp751_in_range y"
  shows "vartimeEq x y \<longleftrightarrow> fp751_val x mod p751 = fp751_val y mod p751"
proof -
  have "vartimeEq x y \<longleftrightarrow> fp751StrongReduce x = fp751StrongReduce y"
    by (simp add: vartimeEq_def Let_def fold_limbs_equal fp751_limbs_eq_iff)
  also have "\<dots> \<longleftrightarrow> fp751_val (fp751StrongReduce x) = fp751_val (fp751StrongReduce y)"
    using fp751_val_inject by auto
  finally show ?thesis
    by (simp only: val_StrongReduce [OF assms(1)] val_StrongReduce [OF assms(2)])
qed

section \<open>The multiplicative identity of the extension field\<close>

text \<open>The array \<^verbatim>\<open>fp751Element{1}\<close>: limb 0 is 1, the other limbs are 0.\<close>

lift_definition fp751_limb_one :: fp751Element is "[1, 0, 0, 0, 0, 0, 0, 0, 0, 0, 0, 0]"
  by (simp add: fp751NumWords_def)

text \<open>The element with limb value 1 in the \<open>a\<close> coordinate and 0 in the \<open>b\<close> coordinate,
  and the element whose \<open>a\<close> coordinate is the Montgomery form of 1, \<open>montgomeryR\<close>.\<close>

definition ExtensionFieldElement_limb_one :: ExtensionFieldElement where
  "ExtensionFieldElement_limb_one = \<lparr>ext_a = fp751_limb_one, ext_b = fp751_zero\<rparr>"

definition ExtensionFieldElement_one :: ExtensionFieldElement where
  "ExtensionFieldElement_one = \<lparr>ext_a = montgomeryR, ext_b = fp751_zero\<rparr>"

lemma val_limb_one: "fp751_val fp751_limb_one = 1"
  by transfer simp

lemma limb_one_in_range: "fp751_in_range fp751_limb_one"
  using p751_gt_1 by (simp add: fp751_in_range_def val_limb_one)

lemma montgomeryR_times_inverse: "(fp751_val montgomeryR * montgomeryRinv) mod p751 = 1"
  using montgomeryRinv_inverse by (simp add: montgomeryR_radix mod_mult_left_eq)

lemma montgomeryR_not_one: "fp751_val montgomeryR mod p751 \<noteq> 1"
proof -
  have "fp751_val montgomeryR mod p751 = fp751_val montgomeryR"
    using p751_gt_1 by (simp add: montgomeryR_radix)
  then show ?thesis
    by (simp add: val_montgomeryR)
qed

lemma val_Mul_one_by_limb_one:
  "fp751_val (ext_a (ExtensionFieldElement_Mul ExtensionFieldElement_one
                       ExtensionFieldElement_limb_one)) = 1"
  using val_ExtMul_a [of ExtensionFieldElement_one ExtensionFieldElement_limb_one]
  by (simp add: ExtensionFieldElement_one_def ExtensionFieldElement_limb_one_def
        montgomeryR_in_range zero_in_range limb_one_in_range val_limb_one fp751_val_zero
        montgomeryR_times_inverse)

text \<open>
  C7, as stated, fails: multiplying the field's one, \<open>montgomeryR + 0i\<close>, by the element
  with limb value 1 in the \<open>a\<close> coordinate gives an \<open>a\<close> coordinate of value 1, which is
  neither \<open>montgomeryR\<close> nor congruent to it. Limb value 1 stands for \<open>R\<inverse>\<close>.
\<close>

theorem limb_one_is_not_the_identity:
  "ExtensionFieldElement_Mul ExtensionFieldElement_one ExtensionFieldElement_limb_one
     \<noteq> ExtensionFieldElement_one
   \<and> \<not> ExtensionFieldElement_VartimeEq
         (ExtensionFieldElement_Mul ExtensionFieldElement_one ExtensionFieldElement_limb_one)
         ExtensionFieldElement_one"
proof
  let ?r = "ExtensionFieldElement_Mul ExtensionFieldElement_one ExtensionFieldElement_limb_one"
  have one: "ext_a ExtensionFieldElement_one = montgomeryR"
    by (simp add: ExtensionFieldElement_one_def)
  have "fp751_val (ext_a ?r) \<noteq> fp751_val (ext_a ExtensionFieldElement_one)"
    by (simp add: val_Mul_one_by_limb_one one val_montgomeryR)
  then show "?r \<noteq> ExtensionFieldElement_one"
    by auto
  have "fp751_in_range (ext_a ?r)"
    using p751_gt_1 by (simp add: fp751_in_range_def val_Mul_one_by_limb_one)
  then have "vartimeEq (ext_a ?r) montgomeryR
             \<longleftrightarrow> fp751_val (ext_a ?r) mod p751 = fp751_val montgomeryR mod p751"
    using montgomeryR_in_range by (rule vartimeEq_iff)
  moreover have "(1::int) mod p751 = 1"
    using p751_gt_1 by simp
  ultimately have "\<not> vartimeEq (ext_a ?r) montgomeryR"
    using montgomeryR_not_one by (simp add: val_Mul_one_by_limb_one)
  then show "\<not> ExtensionFieldElement_VartimeEq ?r ExtensionFieldElement_one"
    by (simp add: ExtensionFieldElement_VartimeEq_def one)
qed

lemma val_Mul_by_one:
  assumes "fp751_in_range (ext_a x)" and "fp751_in_range (ext_b x)"
  shows "fp751_val (ext_a (ExtensionFieldElement_Mul x ExtensionFieldElement_one))
           = fp751_val (ext_a x) mod p751"
    and "fp751_val (ext_b (ExtensionFieldElement_Mul x ExtensionFieldElement_one))
           = fp751_val (ext_b x) mod p751"
proof -
  have r: "fp751_in_range (ext_a ExtensionFieldElement_one)"
    "fp751_in_range (ext_b ExtensionFieldElement_one)"
    by (simp_all add: ExtensionFieldElement_one_def montgomeryR_in_range zero_in_range)
  have c: "\<And>v. (v * (fp751_val montgomeryR * montgomeryRinv)) mod p751 = v mod p751"
    by (rule radix_cancel) (rule montgomeryR_times_inverse)
  have o: "fp751_val (ext_a ExtensionFieldElement_one) = fp751_val montgomeryR"
    "fp751_val (ext_b ExtensionFieldElement_one) = 0"
    by (simp_all add: ExtensionFieldElement_one_def fp751_val_zero)
  show "fp751_val (ext_a (ExtensionFieldElement_Mul x ExtensionFieldElement_one))
           = fp751_val (ext_a x) mod p751"
    using c [of "fp751_val (ext_a x)"]
    by (simp add: val_ExtMul_a [OF assms r] o mult.assoc)
  show "fp751_val (ext_b (ExtensionFieldElement_Mul x ExtensionFieldElement_one))
           = fp751_val (ext_b x) mod p751"
    using c [of "fp751_val (ext_b x)"]
    by (simp add: val_ExtMul_b [OF assms r] o mult.assoc)
qed

lemma residue_in_range: "fp751_val y = v mod p751 \<Longrightarrow> fp751_in_range y"
  using p751_gt_1 pos_mod_bound [of p751 v] unfolding fp751_in_range_def by linarith

text \<open>
  C7, amended: the multiplicative identity is the element whose \<open>a\<close> coordinate is
  \<open>montgomeryR\<close>, the Montgomery form of 1, and whose \<open>b\<close> coordinate is 0. For every \<open>x\<close>
  with coordinates in range, \<open>Mul(x, one)\<close> equals \<open>x\<close> under \<open>VartimeEq\<close>, and limb for
  limb when the coordinates of \<open>x\<close> are canonical (below \<open>p\<close>).
\<close>

theorem montgomeryR_is_the_identity:
  assumes "fp751_in_range (ext_a x)" and "fp751_in_range (ext_b x)"
  shows "ExtensionFieldElement_VartimeEq (ExtensionFieldElement_Mul x ExtensionFieldElement_one) x
         \<and> (fp751_val (ext_a x) < p751 \<and> fp751_val (ext_b x) < p751
              \<longrightarrow> ExtensionFieldElement_Mul x ExtensionFieldElement_one = x)"
proof
  let ?r = "ExtensionFieldElement_Mul x ExtensionFieldElement_one"
  note v = val_Mul_by_one [OF assms]
  have "vartimeEq (ext_a ?r) (ext_a x)"
    using v(1) by (subst vartimeEq_iff) (simp_all add: residue_in_range [OF v(1)] assms)
  moreover have "vartimeEq (ext_b ?r) (ext_b x)"
    using v(2) by (subst vartimeEq_iff) (simp_all add: residue_in_range [OF v(2)] assms)
  ultimately show "ExtensionFieldElement_VartimeEq ?r x"
    by (simp add: ExtensionFieldElement_VartimeEq_def)
  show "fp751_val (ext_a x) < p751 \<and> fp751_val (ext_b x) < p751 \<longrightarrow> ?r = x"
  proof
    assume "fp751_val (ext_a x) < p751 \<and> fp751_val (ext_b x) < p751"
    then have "fp751_val (ext_a x) mod p751 = fp751_val (ext_a x)"
      "fp751_val (ext_b x) mod p751 = fp751_val (ext_b x)"
      using fp751_val_nonneg [of "ext_a x"] fp751_val_nonneg [of "ext_b x"] by simp_all
    then show "?r = x"
      by (intro ExtensionFieldElement_eqI) (simp_all only: v)
  qed
qed

theorem montgomeryR_is_the_identity_witness:
  "fp751_in_range montgomeryR \<and> fp751_in_range fp751_limb_one
   \<and> fp751_val montgomeryR < p751 \<and> fp751_val fp751_limb_one < p751
   \<and> ExtensionFieldElement_VartimeEq
        (ExtensionFieldElement_Mul \<lparr>ext_a = montgomeryR, ext_b = fp751_limb_one\<rparr>
           ExtensionFieldElement_one)
        \<lparr>ext_a = montgomeryR, ext_b = fp751_limb_one\<rparr>
   \<and> ExtensionFieldElement_Mul \<lparr>ext_a = montgomeryR, ext_b = fp751_limb_one\<rparr>
         ExtensionFieldElement_one
       = \<lparr>ext_a = montgomeryR, ext_b = fp751_limb_one\<rparr>"
proof -
  let ?x = "\<lparr>ext_a = montgomeryR, ext_b = fp751_limb_one\<rparr>"
  have r: "fp751_in_range (ext_a ?x)" "fp751_in_range (ext_b ?x)"
    by (simp_all add: montgomeryR_in_range limb_one_in_range)
  have c: "fp751_val (ext_a ?x) < p751 \<and> fp751_val (ext_b ?x) < p751"
    using p751_gt_1 by (simp add: montgomeryR_less val_limb_one)
  have "ExtensionFieldElement_VartimeEq (ExtensionFieldElement_Mul ?x ExtensionFieldElement_one) ?x"
    and "ExtensionFieldElement_Mul ?x ExtensionFieldElement_one = ?x"
    using montgomeryR_is_the_identity [OF r] c by blast+
  with r c show ?thesis
    by (intro conjI) simp_all
qed

section \<open>The operations on pointers\<close>

text \<open>
  The methods take pointers, and \<open>dest\<close> may point to an operand. Memory holds the limb
  arrays: a pointer names an object, a cell is the field \<open>a\<close> or \<open>b\<close> of an object (a
  \<open>PrimeFieldElement\<close> and a plain \<open>fp751Element\<close> variable use field \<open>a\<close> only), and
  the double-width locals have cells of their own. Every call of a residue primitive,
  every copy and every initialisation of a local is recorded with the addresses it
  touches: the trace is the control flow and the memory-access pattern of a run.
  The primitives are assembly routines that load their operands before they store the
  result (the methods call them with the result overlapping an operand).
\<close>

type_synonym ptr = nat

datatype cell = Field_a ptr | Field_b ptr

fun cell_ptr :: "cell \<Rightarrow> ptr" where
  "cell_ptr (Field_a q) = q"
| "cell_ptr (Field_b q) = q"

datatype event =
    Ev_AddReduced cell cell cell
  | Ev_SubReduced cell cell cell
  | Ev_Mul ptr cell cell
  | Ev_X2AddLazy ptr ptr ptr
  | Ev_X2SubLazy ptr ptr ptr
  | Ev_MontgomeryReduce cell ptr
  | Ev_StrongReduce cell
  | Ev_Copy cell cell
  | Ev_Zero cell
  | Ev_ZeroX2 ptr
  | Ev_SetLimb cell nat
  | Ev_Mul_montgomeryRsq ptr cell
  | Ev_Compare nat bool

record memory =
  fp :: "cell \<Rightarrow> fp751Element"
  x2 :: "ptr \<Rightarrow> fp751X2"
  trace :: "event list"

definition fp751AddReduced_at :: "cell \<Rightarrow> cell \<Rightarrow> cell \<Rightarrow> memory \<Rightarrow> memory" where
  "fp751AddReduced_at z x y m =
     m\<lparr>fp := (fp m)(z := fp751AddReduced (fp m x) (fp m y)),
       trace := trace m @ [Ev_AddReduced z x y]\<rparr>"

definition fp751SubReduced_at :: "cell \<Rightarrow> cell \<Rightarrow> cell \<Rightarrow> memory \<Rightarrow> memory" where
  "fp751SubReduced_at z x y m =
     m\<lparr>fp := (fp m)(z := fp751SubReduced (fp m x) (fp m y)),
       trace := trace m @ [Ev_SubReduced z x y]\<rparr>"

definition fp751Mul_at :: "ptr \<Rightarrow> cell \<Rightarrow> cell \<Rightarrow> memory \<Rightarrow> memory" where
  "fp751Mul_at z x y m =
     m\<lparr>x2 := (x2 m)(z := fp751Mul (fp m x) (fp m y)),
       trace := trace m @ [Ev_Mul z x y]\<rparr>"

definition fp751X2AddLazy_at :: "ptr \<Rightarrow> ptr \<Rightarrow> ptr \<Rightarrow> memory \<Rightarrow> memory" where
  "fp751X2AddLazy_at z x y m =
     m\<lparr>x2 := (x2 m)(z := fp751X2AddLazy (x2 m x) (x2 m y)),
       trace := trace m @ [Ev_X2AddLazy z x y]\<rparr>"

definition fp751X2SubLazy_at :: "ptr \<Rightarrow> ptr \<Rightarrow> ptr \<Rightarrow> memory \<Rightarrow> memory" where
  "fp751X2SubLazy_at z x y m =
     m\<lparr>x2 := (x2 m)(z := fp751X2SubLazy (x2 m x) (x2 m y)),
       trace := trace m @ [Ev_X2SubLazy z x y]\<rparr>"

text \<open>``Destroys the input value'': the model clears the double-width operand; no method
  reads it again.\<close>

definition fp751MontgomeryReduce_at :: "cell \<Rightarrow> ptr \<Rightarrow> memory \<Rightarrow> memory" where
  "fp751MontgomeryReduce_at z x m =
     m\<lparr>fp := (fp m)(z := fp751MontgomeryReduce (x2 m x)),
       x2 := (x2 m)(x := fp751X2_zero),
       trace := trace m @ [Ev_MontgomeryReduce z x]\<rparr>"

definition fp751StrongReduce_at :: "cell \<Rightarrow> memory \<Rightarrow> memory" where
  "fp751StrongReduce_at x m =
     m\<lparr>fp := (fp m)(x := fp751StrongReduce (fp m x)),
       trace := trace m @ [Ev_StrongReduce x]\<rparr>"

text \<open>A copy \<^verbatim>\<open>*z = *x\<close> of one limb array, and the zero value a declared local starts with.\<close>

definition copy_at :: "cell \<Rightarrow> cell \<Rightarrow> memory \<Rightarrow> memory" where
  "copy_at z x m = m\<lparr>fp := (fp m)(z := fp m x), trace := trace m @ [Ev_Copy z x]\<rparr>"

definition zero_at :: "cell \<Rightarrow> memory \<Rightarrow> memory" where
  "zero_at z m = m\<lparr>fp := (fp m)(z := fp751_zero), trace := trace m @ [Ev_Zero z]\<rparr>"

definition zero_x2_at :: "ptr \<Rightarrow> memory \<Rightarrow> memory" where
  "zero_x2_at z m = m\<lparr>x2 := (x2 m)(z := fp751X2_zero), trace := trace m @ [Ev_ZeroX2 z]\<rparr>"

text \<open>
  The methods of \<open>PrimeFieldElement\<close>. \<open>sp\<close> is the first free pointer: the locals of a
  call are the objects from \<open>sp\<close> on, and a callee gets the pointers above them.
\<close>

definition PrimeFieldElement_Mul_at :: "ptr \<Rightarrow> ptr \<Rightarrow> ptr \<Rightarrow> ptr \<Rightarrow> memory \<Rightarrow> memory" where
  "PrimeFieldElement_Mul_at dest lhs rhs sp m =
     (let a = Field_a lhs;
          b = Field_a rhs;
          ab = sp;
          m = zero_x2_at ab m;
          m = fp751Mul_at ab a b m
      in fp751MontgomeryReduce_at (Field_a dest) ab m)"

definition PrimeFieldElement_Square_at :: "ptr \<Rightarrow> ptr \<Rightarrow> ptr \<Rightarrow> memory \<Rightarrow> memory" where
  "PrimeFieldElement_Square_at dest x sp m =
     (let a = Field_a x;
          b = Field_a x;
          ab = sp;
          m = zero_x2_at ab m;
          m = fp751Mul_at ab a b m
      in fp751MontgomeryReduce_at (Field_a dest) ab m)"

function Pow2k_loop_at :: "8 word \<Rightarrow> 8 word \<Rightarrow> ptr \<Rightarrow> ptr \<Rightarrow> memory \<Rightarrow> memory" where
  "Pow2k_loop_at i k dest sp m =
     (if i < k then Pow2k_loop_at (i + 1) k dest sp (PrimeFieldElement_Square_at dest dest sp m)
      else m)"
  by pat_completeness auto
termination
proof (relation "measure (\<lambda>(i, k, dest, sp, m). unat k - unat i)")
  show "wf (measure (\<lambda>(i, k, dest, sp, m). unat k - unat i))"
    by simp
next
  fix i k :: "8 word" and dest sp :: ptr and m :: memory
  assume "i < k"
  then have lt: "unat i < unat k"
    by (simp add: word_less_nat_alt)
  moreover have "unat k < 256"
    using unsigned_less [of k, where ?'a = nat] by simp
  ultimately have "unat (i + 1) = unat i + 1"
    by (simp add: unat_word_ariths)
  with lt show "((i + 1, k, dest, sp, PrimeFieldElement_Square_at dest dest sp m), (i, k, dest, sp, m))
          \<in> measure (\<lambda>(i, k, dest, sp, m). unat k - unat i)"
    by simp
qed

declare Pow2k_loop_at.simps [simp del]

definition PrimeFieldElement_Pow2k_at :: "ptr \<Rightarrow> ptr \<Rightarrow> 8 word \<Rightarrow> ptr \<Rightarrow> memory \<Rightarrow> memory" where
  "PrimeFieldElement_Pow2k_at dest x k sp m =
     Pow2k_loop_at 1 k dest sp (PrimeFieldElement_Square_at dest x sp m)"

definition PrimeFieldElement_Add_at :: "ptr \<Rightarrow> ptr \<Rightarrow> ptr \<Rightarrow> memory \<Rightarrow> memory" where
  "PrimeFieldElement_Add_at dest lhs rhs m =
     fp751AddReduced_at (Field_a dest) (Field_a lhs) (Field_a rhs) m"

definition PrimeFieldElement_Sub_at :: "ptr \<Rightarrow> ptr \<Rightarrow> ptr \<Rightarrow> memory \<Rightarrow> memory" where
  "PrimeFieldElement_Sub_at dest lhs rhs m =
     fp751SubReduced_at (Field_a dest) (Field_a lhs) (Field_a rhs) m"

text \<open>\<open>P34\<close>: the table \<open>lookup\<close> is the 16 objects from \<open>sp\<close> on, \<open>xx\<close> the one after.\<close>

definition PrimeFieldElement_P34_at :: "ptr \<Rightarrow> ptr \<Rightarrow> ptr \<Rightarrow> memory \<Rightarrow> memory" where
  "PrimeFieldElement_P34_at dest x sp m =
     (let lookup = (\<lambda>i. sp + i);
          xx = sp + 16;
          sp' = sp + 17;
          m = fold (\<lambda>i m. zero_at (Field_a (lookup i)) m) [0..<16] m;
          m = zero_at (Field_a xx) m;
          m = PrimeFieldElement_Square_at xx x sp' m;
          m = copy_at (Field_a (lookup 0)) (Field_a x) m;
          m = fold (\<lambda>i m. PrimeFieldElement_Mul_at (lookup i) (lookup (i - 1)) xx sp' m)
                [1..<16] m;
          m = copy_at (Field_a dest) (Field_a (lookup (unat (initialMul div 2)))) m
      in fold (\<lambda>i m.
                 let m = PrimeFieldElement_Pow2k_at dest dest (powStrategy ! i) sp' m
                 in PrimeFieldElement_Mul_at dest dest (lookup (unat (mulStrategy ! i div 2))) sp' m)
           [0..<137] m)"

definition PrimeFieldElement_Sqrt_at :: "ptr \<Rightarrow> ptr \<Rightarrow> ptr \<Rightarrow> memory \<Rightarrow> memory" where
  "PrimeFieldElement_Sqrt_at dest x sp m =
     (let tmp_x = sp;
          sp' = sp + 1;
          m = copy_at (Field_a tmp_x) (Field_a x) m;
          m = PrimeFieldElement_P34_at dest x sp' m
      in PrimeFieldElement_Mul_at dest dest tmp_x sp' m)"

definition PrimeFieldElement_Inv_at :: "ptr \<Rightarrow> ptr \<Rightarrow> ptr \<Rightarrow> memory \<Rightarrow> memory" where
  "PrimeFieldElement_Inv_at dest x sp m =
     (let tmp_x = sp;
          sp' = sp + 1;
          m = copy_at (Field_a tmp_x) (Field_a x) m;
          m = PrimeFieldElement_Square_at dest x sp' m;
          m = PrimeFieldElement_P34_at dest dest sp' m;
          m = PrimeFieldElement_Square_at dest dest sp' m
      in PrimeFieldElement_Mul_at dest dest tmp_x sp' m)"

text \<open>\<^verbatim>\<open>dest.a = fp751Element{}; dest.a[0] = x; fp751Mul(&xRR, &dest.a, &montgomeryRsq);
  fp751MontgomeryReduce(&dest.a, &xRR)\<close>. The global \<open>montgomeryRsq\<close> is read only: the
  model multiplies by its value.\<close>

definition PrimeFieldElement_SetUint64_at :: "ptr \<Rightarrow> 64 word \<Rightarrow> ptr \<Rightarrow> memory \<Rightarrow> memory" where
  "PrimeFieldElement_SetUint64_at dest x sp m =
     (let xRR = sp;
          m = zero_x2_at xRR m;
          m = zero_at (Field_a dest) m;
          m = m\<lparr>fp := (fp m)(Field_a dest := fp751_set_limb (fp m (Field_a dest)) 0 x),
                trace := trace m @ [Ev_SetLimb (Field_a dest) 0]\<rparr>;
          m = m\<lparr>x2 := (x2 m)(xRR := fp751Mul (fp m (Field_a dest)) montgomeryRsq),
                trace := trace m @ [Ev_Mul_montgomeryRsq xRR (Field_a dest)]\<rparr>
      in fp751MontgomeryReduce_at (Field_a dest) xRR m)"

text \<open>\<^verbatim>\<open>func (x fp751Element) vartimeEq(y fp751Element) bool\<close>: the receiver and the argument
  are passed by value, so the callee reduces and compares its own copies.\<close>

definition vartimeEq_at :: "cell \<Rightarrow> cell \<Rightarrow> ptr \<Rightarrow> memory \<Rightarrow> bool \<times> memory" where
  "vartimeEq_at x y sp m =
     (let cx = Field_a sp;
          cy = Field_a (sp + 1);
          m = copy_at cx x m;
          m = copy_at cy y m;
          m = fp751StrongReduce_at cx m;
          m = fp751StrongReduce_at cy m
      in fold (\<lambda>i (eq, m).
                 let e = (fp751_limb (fp m cx) i = fp751_limb (fp m cy) i)
                 in (e \<and> eq, m\<lparr>trace := trace m @ [Ev_Compare i e]\<rparr>))
           [0..<fp751NumWords] (True, m))"

definition PrimeFieldElement_VartimeEq_at :: "ptr \<Rightarrow> ptr \<Rightarrow> ptr \<Rightarrow> memory \<Rightarrow> bool \<times> memory" where
  "PrimeFieldElement_VartimeEq_at lhs rhs sp m = vartimeEq_at (Field_a lhs) (Field_a rhs) sp m"

text \<open>The methods of \<open>ExtensionFieldElement\<close>.\<close>

definition ExtensionFieldElement_Mul_at :: "ptr \<Rightarrow> ptr \<Rightarrow> ptr \<Rightarrow> ptr \<Rightarrow> memory \<Rightarrow> memory" where
  "ExtensionFieldElement_Mul_at dest lhs rhs sp m =
     (let a = Field_a lhs;
          b = Field_b lhs;
          c = Field_a rhs;
          d = Field_b rhs;
          ac = sp;
          bd = sp + 1;
          m = zero_x2_at ac m;
          m = zero_x2_at bd m;
          m = fp751Mul_at ac a c m;
          m = fp751Mul_at bd b d m;
          b_minus_a = Field_a sp;
          c_minus_d = Field_a (sp + 1);
          m = zero_at b_minus_a m;
          m = zero_at c_minus_d m;
          m = fp751SubReduced_at b_minus_a b a m;
          m = fp751SubReduced_at c_minus_d c d m;
          ad_plus_bc = sp + 2;
          m = zero_x2_at ad_plus_bc m;
          m = fp751Mul_at ad_plus_bc b_minus_a c_minus_d m;
          m = fp751X2AddLazy_at ad_plus_bc ad_plus_bc ac m;
          m = fp751X2AddLazy_at ad_plus_bc ad_plus_bc bd m;
          m = fp751MontgomeryReduce_at (Field_b dest) ad_plus_bc m;
          ac_minus_bd = sp + 3;
          m = zero_x2_at ac_minus_bd m;
          m = fp751X2SubLazy_at ac_minus_bd ac bd m
      in fp751MontgomeryReduce_at (Field_a dest) ac_minus_bd m)"

definition ExtensionFieldElement_Inv_at :: "ptr \<Rightarrow> ptr \<Rightarrow> ptr \<Rightarrow> memory \<Rightarrow> memory" where
  "ExtensionFieldElement_Inv_at dest x sp m =
     (let a = Field_a x;
          b = Field_b x;
          asq_plus_bsq = sp;
          asq = sp;
          bsq = sp + 1;
          sp' = sp + 4;
          m = zero_at (Field_a asq_plus_bsq) m;
          m = zero_x2_at asq m;
          m = zero_x2_at bsq m;
          m = fp751Mul_at asq a a m;
          m = fp751Mul_at bsq b b m;
          m = fp751X2AddLazy_at asq asq bsq m;
          m = fp751MontgomeryReduce_at (Field_a asq_plus_bsq) asq m;
          asq_plus_bsq_inv = sp + 1;
          m = zero_at (Field_a asq_plus_bsq_inv) m;
          m = PrimeFieldElement_Inv_at asq_plus_bsq_inv asq_plus_bsq sp' m;
          c = Field_a asq_plus_bsq_inv;
          ac = sp + 2;
          m = zero_x2_at ac m;
          m = fp751Mul_at ac a c m;
          m = fp751MontgomeryReduce_at (Field_a dest) ac m;
          minus_b = Field_a (sp + 2);
          m = zero_at minus_b m;
          m = fp751SubReduced_at minus_b minus_b b m;
          minus_bc = sp + 3;
          m = zero_x2_at minus_bc m;
          m = fp751Mul_at minus_bc minus_b c m
      in fp751MontgomeryReduce_at (Field_b dest) minus_bc m)"

definition ExtensionFieldElement_Square_at :: "ptr \<Rightarrow> ptr \<Rightarrow> ptr \<Rightarrow> memory \<Rightarrow> memory" where
  "ExtensionFieldElement_Square_at dest x sp m =
     (let a = Field_a x;
          b = Field_b x;
          a2 = Field_a sp;
          a_plus_b = Field_a (sp + 1);
          a_minus_b = Field_a (sp + 2);
          m = zero_at a2 m;
          m = zero_at a_plus_b m;
          m = zero_at a_minus_b m;
          m = fp751AddReduced_at a2 a a m;
          m = fp751AddReduced_at a_plus_b a b m;
          m = fp751SubReduced_at a_minus_b a b m;
          asq_minus_bsq = sp;
          ab2 = sp + 1;
          m = zero_x2_at asq_minus_bsq m;
          m = zero_x2_at ab2 m;
          m = fp751Mul_at asq_minus_bsq a_plus_b a_minus_b m;
          m = fp751Mul_at ab2 a2 b m;
          m = fp751MontgomeryReduce_at (Field_a dest) asq_minus_bsq m
      in fp751MontgomeryReduce_at (Field_b dest) ab2 m)"

definition ExtensionFieldElement_Add_at :: "ptr \<Rightarrow> ptr \<Rightarrow> ptr \<Rightarrow> memory \<Rightarrow> memory" where
  "ExtensionFieldElement_Add_at dest lhs rhs m =
     (let m = fp751AddReduced_at (Field_a dest) (Field_a lhs) (Field_a rhs) m
      in fp751AddReduced_at (Field_b dest) (Field_b lhs) (Field_b rhs) m)"

definition ExtensionFieldElement_Sub_at :: "ptr \<Rightarrow> ptr \<Rightarrow> ptr \<Rightarrow> memory \<Rightarrow> memory" where
  "ExtensionFieldElement_Sub_at dest lhs rhs m =
     (let m = fp751SubReduced_at (Field_a dest) (Field_a lhs) (Field_a rhs) m
      in fp751SubReduced_at (Field_b dest) (Field_b lhs) (Field_b rhs) m)"

text \<open>\<^verbatim>\<open>return lhs.a.vartimeEq(rhs.a) && lhs.b.vartimeEq(rhs.b)\<close>: the second comparison
  runs only when the first holds.\<close>

definition ExtensionFieldElement_VartimeEq_at ::
    "ptr \<Rightarrow> ptr \<Rightarrow> ptr \<Rightarrow> memory \<Rightarrow> bool \<times> memory" where
  "ExtensionFieldElement_VartimeEq_at lhs rhs sp m =
     (let (eq_a, m) = vartimeEq_at (Field_a lhs) (Field_a rhs) sp m
      in if eq_a then vartimeEq_at (Field_b lhs) (Field_b rhs) sp m else (False, m))"

section \<open>A call leaves in \<open>dest\<close> what the operand values determine\<close>

text \<open>The element stored at a pointer.\<close>

definition prime_at :: "memory \<Rightarrow> ptr \<Rightarrow> PrimeFieldElement" where
  "prime_at m q = \<lparr>prime_a = fp m (Field_a q)\<rparr>"

definition ext_at :: "memory \<Rightarrow> ptr \<Rightarrow> ExtensionFieldElement" where
  "ext_at m q = \<lparr>ext_a = fp m (Field_a q), ext_b = fp m (Field_b q)\<rparr>"

lemma fp_Mul_at:
  "fp (PrimeFieldElement_Mul_at dest lhs rhs sp m)
     = (fp m)(Field_a dest := prime_a (PrimeFieldElement_Mul (prime_at m lhs) (prime_at m rhs)))"
  by (simp add: PrimeFieldElement_Mul_at_def PrimeFieldElement_Mul_def Let_def prime_at_def
        fp751MontgomeryReduce_at_def fp751Mul_at_def zero_x2_at_def)

lemma fp_Square_at:
  "fp (PrimeFieldElement_Square_at dest x sp m)
     = (fp m)(Field_a dest := prime_a (PrimeFieldElement_Square (prime_at m x)))"
  by (simp add: PrimeFieldElement_Square_at_def PrimeFieldElement_Square_def Let_def prime_at_def
        fp751MontgomeryReduce_at_def fp751Mul_at_def zero_x2_at_def)

lemma fp_Add_at:
  "fp (PrimeFieldElement_Add_at dest lhs rhs m)
     = (fp m)(Field_a dest := prime_a (PrimeFieldElement_Add (prime_at m lhs) (prime_at m rhs)))"
  by (simp add: PrimeFieldElement_Add_at_def PrimeFieldElement_Add_def prime_at_def
        fp751AddReduced_at_def)

lemma fp_Sub_at:
  "fp (PrimeFieldElement_Sub_at dest lhs rhs m)
     = (fp m)(Field_a dest := prime_a (PrimeFieldElement_Sub (prime_at m lhs) (prime_at m rhs)))"
  by (simp add: PrimeFieldElement_Sub_at_def PrimeFieldElement_Sub_def prime_at_def
        fp751SubReduced_at_def)

lemma prime_at_upd_same: "prime_at (m\<lparr>fp := (fp m)(Field_a q := v)\<rparr>) q = \<lparr>prime_a = v\<rparr>"
  by (simp add: prime_at_def)

lemma prime_a_eta: "\<lparr>prime_a = prime_a d\<rparr> = (d :: PrimeFieldElement)"
  by simp

lemma prime_at_fp: "fp m' = (fp m)(Field_a q := prime_a d) \<Longrightarrow> prime_at m' q = d"
  by (simp add: prime_at_def)

lemma prime_at_fp_other:
  "fp m' = (fp m)(Field_a q := v) \<Longrightarrow> r \<noteq> q \<Longrightarrow> prime_at m' r = prime_at m r"
  by (simp add: prime_at_def)

lemma fp_Pow2k_loop_at:
  "fp (Pow2k_loop_at i k dest sp m)
     = (fp m)(Field_a dest := prime_a (Pow2k_loop i k (prime_at m dest)))"
proof (induction i k dest sp m rule: Pow2k_loop_at.induct)
  case (1 i k dest sp m)
  show ?case
  proof (cases "i < k")
    case True
    let ?m = "PrimeFieldElement_Square_at dest dest sp m"
    have e: "prime_at ?m dest = PrimeFieldElement_Square (prime_at m dest)"
      by (rule prime_at_fp) (rule fp_Square_at)
    have "fp (Pow2k_loop_at (i + 1) k dest sp ?m)
        = (fp ?m)(Field_a dest := prime_a (Pow2k_loop (i + 1) k (prime_at ?m dest)))"
      by (rule "1.IH" [OF True])
    also have "\<dots> = (fp m)(Field_a dest :=
             prime_a (Pow2k_loop (i + 1) k (PrimeFieldElement_Square (prime_at m dest))))"
      unfolding e by (simp only: fp_Square_at fun_upd_upd)
    finally have "fp (Pow2k_loop_at (i + 1) k dest sp ?m)
        = (fp m)(Field_a dest :=
             prime_a (Pow2k_loop (i + 1) k (PrimeFieldElement_Square (prime_at m dest))))" .
    with True show ?thesis
      by (subst Pow2k_loop_at.simps, subst Pow2k_loop.simps) simp
  next
    case False
    then show ?thesis
      by (subst Pow2k_loop_at.simps, subst Pow2k_loop.simps) (simp add: prime_at_def)
  qed
qed

lemma fp_Pow2k_at:
  "fp (PrimeFieldElement_Pow2k_at dest x k sp m)
     = (fp m)(Field_a dest := prime_a (PrimeFieldElement_Pow2k (prime_at m x) k))"
proof -
  let ?m = "PrimeFieldElement_Square_at dest x sp m"
  have e: "prime_at ?m dest = PrimeFieldElement_Square (prime_at m x)"
    by (rule prime_at_fp) (rule fp_Square_at)
  show ?thesis
    unfolding PrimeFieldElement_Pow2k_at_def PrimeFieldElement_Pow2k_def fp_Pow2k_loop_at e
    by (simp only: fp_Square_at fun_upd_upd)
qed

lemma fp_zero_fold:
  "fp (fold (\<lambda>i m. zero_at (Field_a (sp + i)) m) is m) c
     = (if c \<in> (\<lambda>i. Field_a (sp + i)) ` set is then fp751_zero else fp m c)"
  by (induction "is" arbitrary: m) (auto simp: zero_at_def)

lemma P34_table_at:
  assumes "prime_at m sp = X" and "prime_at m (sp + 16) = PrimeFieldElement_Square X"
    and "1 \<le> k" and "k \<le> 16"
  shows "length (fold (\<lambda>i lookup. lookup[i := PrimeFieldElement_Mul (lookup ! (i - 1))
                                          (PrimeFieldElement_Square X)])
                   [1..<k] ((replicate 16 PrimeFieldElement_zero)[0 := X])) = 16
       \<and> (\<forall>j<k. prime_at (fold (\<lambda>i m. PrimeFieldElement_Mul_at (sp + i) (sp + (i - 1))
                                           (sp + 16) (sp + 17) m) [1..<k] m) (sp + j)
                   = fold (\<lambda>i lookup. lookup[i := PrimeFieldElement_Mul (lookup ! (i - 1))
                                          (PrimeFieldElement_Square X)])
                       [1..<k] ((replicate 16 PrimeFieldElement_zero)[0 := X]) ! j)
       \<and> prime_at (fold (\<lambda>i m. PrimeFieldElement_Mul_at (sp + i) (sp + (i - 1))
                                  (sp + 16) (sp + 17) m) [1..<k] m) (sp + 16)
           = PrimeFieldElement_Square X
       \<and> (\<forall>c. cell_ptr c < sp \<longrightarrow>
             fp (fold (\<lambda>i m. PrimeFieldElement_Mul_at (sp + i) (sp + (i - 1))
                                  (sp + 16) (sp + 17) m) [1..<k] m) c = fp m c)"
  using assms(3,4)
proof (induction k)
  case 0
  then show ?case by simp
next
  case (Suc k)
  let ?xx = "PrimeFieldElement_Square X"
  let ?pstep = "\<lambda>i lookup. lookup[i := PrimeFieldElement_Mul (lookup ! (i - 1)) ?xx]"
  let ?mstep = "\<lambda>i m. PrimeFieldElement_Mul_at (sp + i) (sp + (i - 1)) (sp + 16) (sp + 17) m"
  let ?init = "(replicate 16 PrimeFieldElement_zero)[0 := X]"
  show ?case
  proof (cases "k = 0")
    case True
    then show ?thesis
      using assms(1,2) by simp
  next
    case False
    then have k: "1 \<le> k" "k \<le> 16" "k < 16"
      using Suc.prems by simp_all
    let ?L = "fold ?pstep [1..<k] ?init"
    let ?M = "fold ?mstep [1..<k] m"
    have IH: "length ?L = 16" "\<And>j. j < k \<Longrightarrow> prime_at ?M (sp + j) = ?L ! j"
      "prime_at ?M (sp + 16) = ?xx" "\<And>c. cell_ptr c < sp \<Longrightarrow> fp ?M c = fp m c"
      using Suc.IH k by simp_all
    have u: "[1..<Suc k] = [1..<k] @ [k]"
      using k by simp
    have L': "fold ?pstep [1..<Suc k] ?init = ?L[k := PrimeFieldElement_Mul (?L ! (k - 1)) ?xx]"
      unfolding u fold_append by simp
    have e: "prime_at ?M (sp + (k - 1)) = ?L ! (k - 1)"
      using k by (intro IH) simp
    define M1 where "M1 = fold ?mstep [1..<Suc k] m"
    define v where "v = PrimeFieldElement_Mul (?L ! (k - 1)) ?xx"
    have "M1 = ?mstep k ?M"
      unfolding M1_def u fold_append by simp
    then have "fp M1
        = (fp ?M)(Field_a (sp + k) := prime_a (PrimeFieldElement_Mul
             (prime_at ?M (sp + (k - 1))) (prime_at ?M (sp + 16))))"
      by (simp only: fp_Mul_at)
    then have M': "fp M1 = (fp ?M)(Field_a (sp + k) := prime_a v)"
      by (simp only: e IH(3) v_def)
    have L'': "fold ?pstep [1..<Suc k] ?init = ?L[k := v]"
      unfolding L' v_def ..
    have a: "\<And>j. j < Suc k \<Longrightarrow> prime_at M1 (sp + j) = (?L[k := v]) ! j"
    proof -
      fix j assume "j < Suc k"
      then consider "j = k" | "j < k"
        by linarith
      then show "prime_at M1 (sp + j) = (?L[k := v]) ! j"
      proof cases
        case 1
        then show ?thesis
          using k IH(1) by (simp add: prime_at_def M')
      next
        case 2
        then have "prime_at M1 (sp + j) = prime_at ?M (sp + j)"
          by (simp add: prime_at_def M')
        with 2 show ?thesis
          using IH(2) [OF 2] by simp
      qed
    qed
    have b: "prime_at M1 (sp + 16) = ?xx"
      using k IH(3) by (simp add: prime_at_def M')
    have c: "\<And>c. cell_ptr c < sp \<Longrightarrow> fp M1 c = fp m c"
      using IH(4) by (auto simp: M')
    have "length (?L[k := v]) = 16"
      using IH(1) by simp
    then show ?thesis
      unfolding L'' M1_def [symmetric] using a b c by blast
  qed
qed

lemma P34_loop_at:
  assumes "dest < sp" and "\<forall>j<16. prime_at m (sp + j) = L ! j" and "n \<le> 137"
  shows "prime_at (fold (\<lambda>i m.
                    let m = PrimeFieldElement_Pow2k_at dest dest (powStrategy ! i) sp' m
                    in PrimeFieldElement_Mul_at dest dest (sp + unat (mulStrategy ! i div 2)) sp' m)
              [0..<n] m) dest
         = fold (\<lambda>i dest.
                    let dest = PrimeFieldElement_Pow2k dest (powStrategy ! i)
                    in PrimeFieldElement_Mul dest (L ! unat (mulStrategy ! i div 2)))
              [0..<n] (prime_at m dest)
       \<and> (\<forall>c. c \<noteq> Field_a dest \<longrightarrow>
             fp (fold (\<lambda>i m.
                    let m = PrimeFieldElement_Pow2k_at dest dest (powStrategy ! i) sp' m
                    in PrimeFieldElement_Mul_at dest dest (sp + unat (mulStrategy ! i div 2)) sp' m)
              [0..<n] m) c = fp m c)"
  using assms(3)
proof (induction n)
  case 0
  show ?case by simp
next
  case (Suc n)
  let ?mstep = "\<lambda>i m.
                    let m = PrimeFieldElement_Pow2k_at dest dest (powStrategy ! i) sp' m
                    in PrimeFieldElement_Mul_at dest dest (sp + unat (mulStrategy ! i div 2)) sp' m"
  let ?pstep = "\<lambda>i dest.
                    let dest = PrimeFieldElement_Pow2k dest (powStrategy ! i)
                    in PrimeFieldElement_Mul dest (L ! unat (mulStrategy ! i div 2))"
  define M where "M = fold ?mstep [0..<n] m"
  define D where "D = fold ?pstep [0..<n] (prime_at m dest)"
  define M1 where "M1 = fold ?mstep [0..<Suc n] m"
  define idx where "idx = unat (mulStrategy ! n div 2)"
  have n: "n < 137"
    using Suc.prems by simp
  have IH: "prime_at M dest = D" "\<And>c. c \<noteq> Field_a dest \<Longrightarrow> fp M c = fp m c"
    using Suc.IH n unfolding M_def D_def by simp_all
  have "mulStrategy ! n \<in> set mulStrategy"
    using n by (simp add: length_mulStrategy)
  then have idx: "idx < 16"
    unfolding idx_def using mulStrategy_index by blast
  then have ne: "sp + idx \<noteq> dest"
    using assms(1) by simp
  define P where "P = PrimeFieldElement_Pow2k_at dest dest (powStrategy ! n) sp' M"
  have P: "fp P = (fp M)(Field_a dest := prime_a (PrimeFieldElement_Pow2k D (powStrategy ! n)))"
    unfolding P_def by (simp only: fp_Pow2k_at IH(1))
  have Pd: "prime_at P dest = PrimeFieldElement_Pow2k D (powStrategy ! n)"
    using P by (rule prime_at_fp)
  have "prime_at P (sp + idx) = prime_at M (sp + idx)"
    using P ne by (rule prime_at_fp_other)
  also have "\<dots> = prime_at m (sp + idx)"
    using ne IH(2) [of "Field_a (sp + idx)"] by (simp add: prime_at_def)
  also have "\<dots> = L ! idx"
    using assms(2) idx by simp
  finally have Pl: "prime_at P (sp + idx) = L ! idx" .
  have "M1 = PrimeFieldElement_Mul_at dest dest (sp + idx) sp' P"
    unfolding M1_def P_def M_def idx_def by (simp add: Let_def)
  then have M1: "fp M1 = (fp P)(Field_a dest := prime_a (PrimeFieldElement_Mul
                    (PrimeFieldElement_Pow2k D (powStrategy ! n)) (L ! idx)))"
    by (simp only: fp_Mul_at Pd Pl)
  have D1: "fold ?pstep [0..<Suc n] (prime_at m dest)
            = PrimeFieldElement_Mul (PrimeFieldElement_Pow2k D (powStrategy ! n)) (L ! idx)"
    unfolding D_def idx_def by (simp add: Let_def)
  have a: "prime_at M1 dest
           = PrimeFieldElement_Mul (PrimeFieldElement_Pow2k D (powStrategy ! n)) (L ! idx)"
    using M1 by (rule prime_at_fp)
  have b: "\<And>c. c \<noteq> Field_a dest \<Longrightarrow> fp M1 c = fp m c"
    using IH(2) by (simp add: M1 P)
  show ?case
    unfolding D1 M1_def [symmetric] using a b by blast
qed

lemma P34_at_result:
  assumes "dest < sp" and "x < sp"
  shows "prime_at (PrimeFieldElement_P34_at dest x sp m) dest
           = PrimeFieldElement_P34 (prime_at m x)
       \<and> (\<forall>c. cell_ptr c < sp \<and> c \<noteq> Field_a dest \<longrightarrow>
             fp (PrimeFieldElement_P34_at dest x sp m) c = fp m c)"
proof -
  define X where "X = prime_at m x"
  define m0 where "m0 = zero_at (Field_a (sp + 16))
                          (fold (\<lambda>i m. zero_at (Field_a (sp + i)) m) [0..<16] m)"
  define m1 where "m1 = PrimeFieldElement_Square_at (sp + 16) x (sp + 17) m0"
  define m2 where "m2 = copy_at (Field_a (sp + 0)) (Field_a x) m1"
  define m3 where "m3 = fold (\<lambda>i m. PrimeFieldElement_Mul_at (sp + i) (sp + (i - 1))
                                   (sp + 16) (sp + 17) m) [1..<16] m2"
  define m4 where "m4 = copy_at (Field_a dest) (Field_a (sp + unat (initialMul div 2))) m3"
  define L where "L = P34_lookup X"
  have f0: "\<And>c. cell_ptr c < sp \<Longrightarrow> fp m0 c = fp m c"
    unfolding m0_def by (auto simp: zero_at_def fp_zero_fold)
  have x0: "prime_at m0 x = X"
    using assms(2) f0 [of "Field_a x"] by (simp add: prime_at_def X_def)
  have f1: "fp m1 = (fp m0)(Field_a (sp + 16) := prime_a (PrimeFieldElement_Square X))"
    unfolding m1_def by (simp only: fp_Square_at x0)
  have f2: "fp m2 = (fp m1)(Field_a sp := fp m1 (Field_a x))"
    unfolding m2_def by (simp add: copy_at_def)
  have "fp m0 (Field_a x) = prime_a X"
    using x0 by (auto simp: prime_at_def)
  then have "fp m1 (Field_a x) = prime_a X"
    using assms(2) by (simp add: f1)
  then have b2: "prime_at m2 sp = X" "prime_at m2 (sp + 16) = PrimeFieldElement_Square X"
    by (simp_all add: prime_at_def f2 f1)
  have fr2: "\<And>c. cell_ptr c < sp \<Longrightarrow> fp m2 c = fp m c"
    using f0 by (auto simp: f2 f1)
  have t: "\<forall>j<16. prime_at m3 (sp + j) = L ! j"
    and fr3: "\<And>c. cell_ptr c < sp \<Longrightarrow> fp m3 c = fp m2 c"
    using P34_table_at [OF b2, of 16] unfolding m3_def L_def P34_lookup_def Let_def by simp_all
  have f4: "fp m4 = (fp m3)(Field_a dest := fp m3 (Field_a (sp + unat (initialMul div 2))))"
    unfolding m4_def by (simp add: copy_at_def)
  have i: "unat (initialMul div 2) < 16"
    by (simp add: initialMul_def)
  then have d4: "prime_at m4 dest = L ! unat (initialMul div 2)"
    using t by (simp add: f4 prime_at_def)
  have t4: "\<forall>j<16. prime_at m4 (sp + j) = L ! j"
    using t assms(1) by (simp add: f4 prime_at_def)
  have fr4: "\<And>c. cell_ptr c < sp \<Longrightarrow> c \<noteq> Field_a dest \<Longrightarrow> fp m4 c = fp m c"
    using fr3 fr2 by (simp add: f4)
  have e: "PrimeFieldElement_P34_at dest x sp m
           = fold (\<lambda>i m.
                    let m = PrimeFieldElement_Pow2k_at dest dest (powStrategy ! i) (sp + 17) m
                    in PrimeFieldElement_Mul_at dest dest (sp + unat (mulStrategy ! i div 2))
                         (sp + 17) m)
              [0..<137] m4"
    unfolding PrimeFieldElement_P34_at_def m4_def m3_def m2_def m1_def m0_def Let_def by simp
  have p: "PrimeFieldElement_P34 X
           = fold (\<lambda>i dest.
                    let dest = PrimeFieldElement_Pow2k dest (powStrategy ! i)
                    in PrimeFieldElement_Mul dest (L ! unat (mulStrategy ! i div 2)))
              [0..<137] (prime_at m4 dest)"
    unfolding PrimeFieldElement_P34_def L_def [symmetric] Let_def d4 ..
  note loop = P34_loop_at [OF assms(1) t4, of 137 "sp + 17"]
  have "prime_at (PrimeFieldElement_P34_at dest x sp m) dest = PrimeFieldElement_P34 X"
    unfolding e p using loop by simp
  moreover have "\<And>c. cell_ptr c < sp \<Longrightarrow> c \<noteq> Field_a dest \<Longrightarrow>
                   fp (PrimeFieldElement_P34_at dest x sp m) c = fp m c"
    unfolding e using loop fr4 by simp
  ultimately show ?thesis
    unfolding X_def by blast
qed

lemma Sqrt_at_result:
  assumes "dest < sp" and "x < sp"
  shows "prime_at (PrimeFieldElement_Sqrt_at dest x sp m) dest
           = PrimeFieldElement_Sqrt (prime_at m x)
       \<and> (\<forall>c. cell_ptr c < sp \<and> c \<noteq> Field_a dest \<longrightarrow>
             fp (PrimeFieldElement_Sqrt_at dest x sp m) c = fp m c)"
proof -
  define X where "X = prime_at m x"
  define m1 where "m1 = copy_at (Field_a sp) (Field_a x) m"
  define m2 where "m2 = PrimeFieldElement_P34_at dest x (sp + 1) m1"
  have f1: "fp m1 = (fp m)(Field_a sp := fp m (Field_a x))"
    unfolding m1_def by (simp add: copy_at_def)
  have x1: "prime_at m1 x = X" "prime_at m1 sp = X"
    using assms(2) by (simp_all add: f1 prime_at_def X_def)
  have p: "prime_at m2 dest = PrimeFieldElement_P34 X"
    and fr: "\<And>c. cell_ptr c < sp + 1 \<Longrightarrow> c \<noteq> Field_a dest \<Longrightarrow> fp m2 c = fp m1 c"
    using P34_at_result [of dest "sp + 1" x m1] assms unfolding m2_def x1 by simp_all
  have t: "prime_at m2 sp = X"
    using fr [of "Field_a sp"] assms(1) x1(2) by (simp add: prime_at_def)
  have e: "PrimeFieldElement_Sqrt_at dest x sp m
           = PrimeFieldElement_Mul_at dest dest sp (sp + 1) m2"
    unfolding PrimeFieldElement_Sqrt_at_def m2_def m1_def Let_def ..
  have f: "fp (PrimeFieldElement_Sqrt_at dest x sp m)
           = (fp m2)(Field_a dest := prime_a (PrimeFieldElement_Sqrt X))"
    unfolding e PrimeFieldElement_Sqrt_def Let_def by (simp only: fp_Mul_at p t)
  have "prime_at (PrimeFieldElement_Sqrt_at dest x sp m) dest = PrimeFieldElement_Sqrt X"
    using f by (rule prime_at_fp)
  moreover have "\<And>c. cell_ptr c < sp \<Longrightarrow> c \<noteq> Field_a dest \<Longrightarrow>
                   fp (PrimeFieldElement_Sqrt_at dest x sp m) c = fp m c"
    using fr by (auto simp: f f1)
  ultimately show ?thesis
    unfolding X_def by blast
qed

lemma Inv_at_result:
  assumes "dest < sp" and "x < sp"
  shows "prime_at (PrimeFieldElement_Inv_at dest x sp m) dest
           = PrimeFieldElement_Inv (prime_at m x)
       \<and> (\<forall>c. cell_ptr c < sp \<and> c \<noteq> Field_a dest \<longrightarrow>
             fp (PrimeFieldElement_Inv_at dest x sp m) c = fp m c)"
proof -
  define X where "X = prime_at m x"
  define m1 where "m1 = copy_at (Field_a sp) (Field_a x) m"
  define m2 where "m2 = PrimeFieldElement_Square_at dest x (sp + 1) m1"
  define m3 where "m3 = PrimeFieldElement_P34_at dest dest (sp + 1) m2"
  define m4 where "m4 = PrimeFieldElement_Square_at dest dest (sp + 1) m3"
  have f1: "fp m1 = (fp m)(Field_a sp := fp m (Field_a x))"
    unfolding m1_def by (simp add: copy_at_def)
  have x1: "prime_at m1 x = X" "prime_at m1 sp = X"
    using assms(2) by (simp_all add: f1 prime_at_def X_def)
  have f2: "fp m2 = (fp m1)(Field_a dest := prime_a (PrimeFieldElement_Square X))"
    unfolding m2_def by (simp only: fp_Square_at x1)
  have d2: "prime_at m2 dest = PrimeFieldElement_Square X"
    using f2 by (rule prime_at_fp)
  have p: "prime_at m3 dest = PrimeFieldElement_P34 (PrimeFieldElement_Square X)"
    and fr: "\<And>c. cell_ptr c < sp + 1 \<Longrightarrow> c \<noteq> Field_a dest \<Longrightarrow> fp m3 c = fp m2 c"
    using P34_at_result [of dest "sp + 1" dest m2] assms unfolding m3_def d2 by simp_all
  have t3: "prime_at m3 sp = X"
    using fr [of "Field_a sp"] assms(1) x1(2) by (simp add: prime_at_def f2)
  have f4: "fp m4 = (fp m3)(Field_a dest :=
              prime_a (PrimeFieldElement_Square (PrimeFieldElement_P34 (PrimeFieldElement_Square X))))"
    unfolding m4_def by (simp only: fp_Square_at p)
  have d4: "prime_at m4 dest
            = PrimeFieldElement_Square (PrimeFieldElement_P34 (PrimeFieldElement_Square X))"
    using f4 by (rule prime_at_fp)
  have t4: "prime_at m4 sp = X"
    using f4 assms(1) t3 prime_at_fp_other [of m4 m3 dest _ sp] by simp
  have e: "PrimeFieldElement_Inv_at dest x sp m
           = PrimeFieldElement_Mul_at dest dest sp (sp + 1) m4"
    unfolding PrimeFieldElement_Inv_at_def m4_def m3_def m2_def m1_def Let_def ..
  have f: "fp (PrimeFieldElement_Inv_at dest x sp m)
           = (fp m4)(Field_a dest := prime_a (PrimeFieldElement_Inv X))"
    unfolding e PrimeFieldElement_Inv_def Let_def by (simp only: fp_Mul_at d4 t4)
  have "prime_at (PrimeFieldElement_Inv_at dest x sp m) dest = PrimeFieldElement_Inv X"
    using f by (rule prime_at_fp)
  moreover have "\<And>c. cell_ptr c < sp \<Longrightarrow> c \<noteq> Field_a dest \<Longrightarrow>
                   fp (PrimeFieldElement_Inv_at dest x sp m) c = fp m c"
    using fr by (auto simp: f f4 f2 f1)
  ultimately show ?thesis
    unfolding X_def by blast
qed

end
